theory Spec2Isabelle
  imports Main "HOL-Library.AList"
begin

section \<open>Values, errors and dictionaries\<close>

text \<open>
  A decoded JSON value, as \<open>json.loads\<close> returns it: \<open>None\<close>, a bool, an int, a str,
  a list, or a dict with string keys (kept as the list of its items in insertion order;
  the first pair with a key is the dict's entry for it). Python floats are not
  represented: the development says nothing about values that contain one.
\<close>

datatype json =
    JNull
  | JBool bool
  | JInt int
  | JStr string
  | JArr "json list"
  | JObj "(string \<times> json) list"

text \<open>
  The exceptions the modelled code can raise. \<open>UnicodeDecodeError\<close> is a subclass of
  ValueError and \<open>RecursionError\<close> one of RuntimeError; neither is a JSONDecodeError or an
  OSError. \<open>KeyNotStr\<close> and \<open>NotADict\<close> are not Python exceptions: they mark the places
  where a run would leave the declared type \<open>self._data: dict[str, Any]\<close>, by storing a key
  that is not a \<open>str\<close> or by loading a snapshot that is JSON but not an object; the model
  stops there, and no theorem below is about such a run.
\<close>

datatype error =
    AttributeError | TypeError | ValueError | KeyError | OSError
  | UnicodeDecodeError | RecursionError
  | KeyNotStr | NotADict

text \<open>\<open>self._data: dict[str, Any]\<close>, in insertion order, keys pairwise distinct.\<close>

type_synonym pydict = "(string \<times> json) list"

text \<open>Only \<open>None\<close>, bools, ints and strs are hashable; a list or a dict as a key raises TypeError.\<close>

fun hashable :: "json \<Rightarrow> bool" where
  "hashable (JArr _) = False"
| "hashable (JObj _) = False"
| "hashable _ = True"

text \<open>\<open>d[key] = value\<close>\<close>

fun dict_setitem :: "pydict \<Rightarrow> json \<Rightarrow> json \<Rightarrow> error + pydict" where
  "dict_setitem d (JStr k) v = Inr (AList.update k v d)"
| "dict_setitem d (JArr _) v = Inl TypeError"
| "dict_setitem d (JObj _) v = Inl TypeError"
| "dict_setitem d _ v = Inl KeyNotStr"

text \<open>
  \<open>d.pop(key, None)\<close>: a hashable key that is not a str is never in the dict. On an empty
  dict CPython returns the default before it hashes the key, so an unhashable key raises on
  a dict with entries only.
\<close>

fun dict_pop :: "pydict \<Rightarrow> json \<Rightarrow> error + pydict" where
  "dict_pop d (JStr k) = Inr (AList.delete k d)"
| "dict_pop d (JArr _) = (if d = [] then Inr d else Inl TypeError)"
| "dict_pop d (JObj _) = (if d = [] then Inr d else Inl TypeError)"
| "dict_pop d _ = Inr d"

text \<open>\<open>d.get(key)\<close>: \<open>None\<close> for a key that is not there.\<close>

fun dict_get :: "pydict \<Rightarrow> json \<Rightarrow> error + json" where
  "dict_get d (JStr k) = Inr (case map_of d k of None \<Rightarrow> JNull | Some v \<Rightarrow> v)"
| "dict_get d (JArr _) = Inl TypeError"
| "dict_get d (JObj _) = Inl TypeError"
| "dict_get d _ = Inr JNull"

text \<open>\<open>entry.get(name, default)\<close> on a decoded value: only a dict has \<open>get\<close>.\<close>

fun obj_get :: "json \<Rightarrow> string \<Rightarrow> json \<Rightarrow> error + json" where
  "obj_get (JObj kvs) name dflt = Inr (case map_of kvs name of None \<Rightarrow> dflt | Some v \<Rightarrow> v)"
| "obj_get _ name dflt = Inl AttributeError"

text \<open>Truth value of a decoded value, as \<open>if x:\<close> and \<open>x and y\<close> take it.\<close>

fun truthy :: "json \<Rightarrow> bool" where
  "truthy JNull = False"
| "truthy (JBool b) = b"
| "truthy (JInt i) = (i \<noteq> 0)"
| "truthy (JStr s) = (s \<noteq> [])"
| "truthy (JArr xs) = (xs \<noteq> [])"
| "truthy (JObj kvs) = (kvs \<noteq> [])"

text \<open>
  Iterating a decoded value (\<open>for x in v\<close>, \<open>tuple(v)\<close>): the elements of a list, the
  characters of a str, the keys of a dict; anything else is not iterable.
\<close>

fun py_iter :: "json \<Rightarrow> error + json list" where
  "py_iter (JArr xs) = Inr xs"
| "py_iter (JStr s) = Inr (map (\<lambda>c. JStr [c]) s)"
| "py_iter (JObj kvs) = Inr (map (\<lambda>kv. JStr (fst kv)) kvs)"
| "py_iter _ = Inl TypeError"

text \<open>\<open>k, v = t\<close> for a tuple or list \<open>t\<close> given by its elements.\<close>

fun unpack_pair :: "json list \<Rightarrow> error + json \<times> json" where
  "unpack_pair [k, v] = Inr (k, v)"
| "unpack_pair _ = Inl ValueError"

section \<open>Text of values: \<open>str\<close>, \<open>repr\<close> and \<open>_tokenize\<close>\<close>

function show_nat :: "nat \<Rightarrow> string" where
  "show_nat n =
     (if n < 10 then [''0123456789'' ! n]
      else show_nat (n div 10) @ [''0123456789'' ! (n mod 10)])"
  by pat_completeness auto
termination
  by (relation "measure id") auto

definition show_int :: "int \<Rightarrow> string" where
  "show_int i = (if i < 0 then CHR ''-'' # show_nat (nat (- i)) else show_nat (nat i))"

text \<open>
  \<open>repr\<close> of a str on ASCII text: single quotes unless the text has a single quote and no
  double quote; backslash, the quote, tab, newline and carriage return are escaped, other
  control characters are written \<open>\xhh\<close>.
\<close>

definition repr_quote :: "string \<Rightarrow> char" where
  "repr_quote s = (if CHR 0x27 \<in> set s \<and> CHR 0x22 \<notin> set s then CHR 0x22 else CHR 0x27)"

definition repr_char :: "char \<Rightarrow> char \<Rightarrow> string" where
  "repr_char q c =
     (if c = q \<or> c = CHR 0x5C then [CHR 0x5C, c]
      else if c = CHR 0x09 then [CHR 0x5C, CHR ''t'']
      else if c = CHR 0x0A then [CHR 0x5C, CHR ''n'']
      else if c = CHR 0x0D then [CHR 0x5C, CHR ''r'']
      else if (of_char c :: nat) < 32 \<or> (of_char c :: nat) = 127
        then [CHR 0x5C, CHR ''x'', ''0123456789abcdef'' ! ((of_char c :: nat) div 16),
              ''0123456789abcdef'' ! ((of_char c :: nat) mod 16)]
      else [c])"

definition repr_str :: "string \<Rightarrow> string" where
  "repr_str s = (let q = repr_quote s in q # concat (map (repr_char q) s) @ [q])"

fun join_comma :: "string list \<Rightarrow> string" where
  "join_comma [] = []"
| "join_comma [x] = x"
| "join_comma (x # y # ys) = x @ '', '' @ join_comma (y # ys)"

primrec py_repr :: "json \<Rightarrow> string" where
  "py_repr JNull = ''None''"
| "py_repr (JBool b) = (if b then ''True'' else ''False'')"
| "py_repr (JInt i) = show_int i"
| "py_repr (JStr s) = repr_str s"
| "py_repr (JArr xs) = ''['' @ join_comma (map py_repr xs) @ '']''"
| "py_repr (JObj kvs) =
     ''{'' @ join_comma (map (\<lambda>kv. repr_str (fst kv) @ '': '' @ snd kv) (map (map_prod id py_repr) kvs)) @ ''}''"

text \<open>\<open>str(value)\<close>: a str is itself, everything else prints as its \<open>repr\<close>.\<close>

fun py_str :: "json \<Rightarrow> string" where
  "py_str (JStr s) = s"
| "py_str v = py_repr v"

text \<open>
  \<open>_tokenize\<close>: lowercase the text, then \<open>re.findall(r"\b\w+\b", text)\<close>, the maximal runs of
  word characters. On ASCII text the word characters are letters, digits and underscore.
\<close>

definition is_word_char :: "char \<Rightarrow> bool" where
  "is_word_char c =
     (let n = (of_char c :: nat)
      in (48 \<le> n \<and> n \<le> 57) \<or> (65 \<le> n \<and> n \<le> 90) \<or> n = 95 \<or> (97 \<le> n \<and> n \<le> 122))"

definition lower_char :: "char \<Rightarrow> char" where
  "lower_char c =
     (let n = (of_char c :: nat) in if 65 \<le> n \<and> n \<le> 90 then char_of (n + 32) else c)"

fun word_runs :: "string \<Rightarrow> string \<Rightarrow> string list" where
  "word_runs cur [] = (if cur = [] then [] else [cur])"
| "word_runs cur (c # cs) =
     (if is_word_char c then word_runs (cur @ [c]) cs
      else (if cur = [] then [] else [cur]) @ word_runs [] cs)"

definition tokenize :: "json \<Rightarrow> string list" where
  "tokenize text = word_runs [] (map lower_char (py_str text))"

section \<open>The files of a data directory\<close>

text \<open>
  A line of \<open>wal.jsonl\<close> is given by what \<open>_recover\<close> sees after \<open>line.strip()\<close> and
  \<open>json.loads\<close>: nothing left (\<open>Blank\<close>), text that \<open>json.loads\<close> rejects with
  JSONDecodeError (\<open>Undecodable\<close>), or a decoded value. \<open>json.dumps\<close> followed by
  \<open>json.loads\<close> gives back the value, so the line written for an entry is \<open>Decoded\<close> of it.
  A proper, non-empty prefix of the text of a JSON object is not JSON: a line torn by a
  crash is \<open>Undecodable\<close>.

  \<open>Raising e\<close> is a place where getting or decoding the next line raises an exception
  that is not JSONDecodeError: UnicodeDecodeError from the text reader on bytes that are not
  UTF-8, ValueError from \<open>json.loads\<close> on an integer literal beyond the digit limit,
  RecursionError on nesting that is too deep. The reader decodes the file a buffer at a
  time, ahead of the line it yields, so for bytes that are not UTF-8 the place is the first
  line whose buffer holds them, which can be before the line they are in.
\<close>

datatype wal_line = Blank | Undecodable | Decoded json | Raising error

text \<open>
  \<open>snapshot.json\<close>: missing; text that \<open>json.load\<close> rejects with JSONDecodeError (for
  instance torn) or a file whose reading raises OSError; the dumped dict; a file on which
  \<open>json.load\<close> raises another exception (UnicodeDecodeError on bytes that are not UTF-8,
  ValueError, RecursionError); or JSON text that is not an object.
\<close>

datatype snapshot_file =
    NoSnapshot
  | BadSnapshot
  | Snapshot pydict
  | RaisingSnapshot error
  | NotObjectSnapshot

text \<open>
  \<open>wal\<close> holds the lines that end in a newline, \<open>wal_tail\<close> the text after the last
  newline when there is some. A missing WAL file reads like an empty one.
\<close>

record disk =
  wal :: "wal_line list"
  wal_tail :: "wal_line option"
  snapshot :: snapshot_file

definition fresh_disk :: disk where
  "fresh_disk = \<lparr>wal = [], wal_tail = None, snapshot = NoSnapshot\<rparr>"

text \<open>The lines \<open>for line in f\<close> yields.\<close>

definition wal_lines :: "disk \<Rightarrow> wal_line list" where
  "wal_lines dk = wal dk @ (case wal_tail dk of None \<Rightarrow> [] | Some l \<Rightarrow> [l])"

text \<open>
  What one call contributes from outside the program: how far the write of the WAL line
  got, the draw \<open>random.random() < self._debug_random_fail_chance\<close>, and how far the write
  of the snapshot got. \<open>WalWritten\<close> and \<open>SnapWritten\<close> are the calls that return; the
  others raise OSError (or are the points where the process is killed), having written
  nothing, a proper prefix of the line, or the line without its newline; a snapshot
  opened with mode \<open>"w"\<close> and not finished is left holding text that is not JSON.
\<close>

datatype wal_outcome = WalWritten | WalNothing | WalTorn | WalNoNewline

datatype snap_outcome = SnapWritten | SnapNothing | SnapTorn

record env =
  wal_out :: wal_outcome
  random_below :: bool
  snap_out :: snap_outcome

section \<open>The full-text index\<close>

text \<open>\<open>FullTextIndex._word_to_keys: dict[str, set[str]]\<close>\<close>

type_synonym ft_index = "string \<rightharpoonup> json set"

definition posting :: "ft_index \<Rightarrow> string \<Rightarrow> json set" where
  "posting idx w = (case idx w of None \<Rightarrow> {} | Some ks \<Rightarrow> ks)"

definition discard_key :: "ft_index \<Rightarrow> json \<Rightarrow> ft_index" where
  "discard_key idx key = (\<lambda>w. map_option (\<lambda>ks. ks - {key}) (idx w))"

definition add_posting :: "json \<Rightarrow> ft_index \<Rightarrow> string \<Rightarrow> ft_index" where
  "add_posting key idx w = idx(w \<mapsto> insert key (posting idx w))"

definition index_value :: "ft_index \<Rightarrow> json \<Rightarrow> json \<Rightarrow> ft_index" where
  "index_value idx key value =
     foldl (add_posting key) (discard_key idx key) (tokenize (JStr (py_str value)))"

definition remove_key :: "ft_index \<Rightarrow> json \<Rightarrow> ft_index" where
  "remove_key idx key =
     (\<lambda>w. case discard_key idx key w of
             None \<Rightarrow> None
           | Some ks \<Rightarrow> if ks = {} then None else Some ks)"

text \<open>
  \<open>if self._ft_index: self._ft_index.remove_key(key)\<close> as \<open>delete\<close> calls it:
  \<open>keys.discard(key)\<close> raises TypeError for an unhashable key as soon as the index has one
  word.
\<close>

fun forget_key :: "ft_index option \<Rightarrow> json \<Rightarrow> error + ft_index option" where
  "forget_key None key = Inr None"
| "forget_key (Some idx) key =
     (if hashable key \<or> idx = Map.empty then Inr (Some (remove_key idx key)) else Inl TypeError)"

text \<open>\<open>search\<close> returns \<open>list(result)\<close>, a list without repetition in no fixed order: its set.\<close>

definition search :: "ft_index \<Rightarrow> json \<Rightarrow> json set" where
  "search idx query =
     (case tokenize query of
        [] \<Rightarrow> {}
      | w # ws \<Rightarrow> foldl (\<lambda>result s. result \<inter> s) (posting idx w) (map (posting idx) ws))"

section \<open>\<open>KVStore\<close>\<close>

text \<open>
  The similarity index (\<open>WordEmbeddingIndex\<close>) holds floating-point vectors and is left out;
  it touches neither the map nor the files.
\<close>

record kvstore =
  data :: pydict
  ft_index :: "ft_index option"
  files :: disk

subsection \<open>\<open>_recover\<close>\<close>

fun replay_items :: "pydict \<Rightarrow> json list \<Rightarrow> error + pydict" where
  "replay_items d [] = Inr d"
| "replay_items d (item # items) =
     (case py_iter item of
        Inl e \<Rightarrow> Inl e
      | Inr t \<Rightarrow>
         (case unpack_pair t of
            Inl e \<Rightarrow> Inl e
          | Inr (k, v) \<Rightarrow>
             (case dict_setitem d k v of
                Inl e \<Rightarrow> Inl e
              | Inr d' \<Rightarrow> replay_items d' items)))"

text \<open>The body of the loop over the lines, from \<open>entry.get("op")\<close> on.\<close>

definition replay_entry :: "pydict \<Rightarrow> json \<Rightarrow> error + pydict" where
  "replay_entry d entry =
     (case obj_get entry ''op'' JNull of
        Inl e \<Rightarrow> Inl e
      | Inr op \<Rightarrow>
         (case obj_get entry ''key'' JNull of
            Inl e \<Rightarrow> Inl e
          | Inr key \<Rightarrow>
             if op = JStr ''set'' then
               (case obj_get entry ''value'' JNull of
                  Inl e \<Rightarrow> Inl e
                | Inr value \<Rightarrow> dict_setitem d key value)
             else if op = JStr ''delete'' then dict_pop d key
             else if op = JStr ''bulk'' then
               (case obj_get entry ''items'' (JArr []) of
                  Inl e \<Rightarrow> Inl e
                | Inr items \<Rightarrow>
                   (case py_iter items of
                      Inl e \<Rightarrow> Inl e
                    | Inr its \<Rightarrow> replay_items d its))
             else Inr d))"

text \<open>
  The loop over the lines. JSONDecodeError is caught outside the loop, so the first
  undecodable line ends the replay; any other exception leaves \<open>_recover\<close>, whether the
  reader, \<open>json.loads\<close> or the body of the loop raises it.
\<close>

fun replay :: "pydict \<Rightarrow> wal_line list \<Rightarrow> error + pydict" where
  "replay d [] = Inr d"
| "replay d (Blank # ls) = replay d ls"
| "replay d (Undecodable # ls) = Inr d"
| "replay d (Raising e # ls) = Inl e"
| "replay d (Decoded entry # ls) =
     (case replay_entry d entry of
        Inl e \<Rightarrow> Inl e
      | Inr d' \<Rightarrow> replay d' ls)"

definition rebuild_index :: "pydict \<Rightarrow> ft_index" where
  "rebuild_index d = foldl (\<lambda>idx kv. index_value idx (JStr (fst kv)) (snd kv)) Map.empty d"

text \<open>
  The first statement of \<open>_recover\<close>: the exception that loading the snapshot lets through,
  if any, and the dict that \<open>self._data\<close> is otherwise.
\<close>

definition snapshot_raises :: "disk \<Rightarrow> error option" where
  "snapshot_raises dk =
     (case snapshot dk of
        RaisingSnapshot e \<Rightarrow> Some e
      | NotObjectSnapshot \<Rightarrow> Some NotADict
      | _ \<Rightarrow> None)"

definition load_snapshot :: "disk \<Rightarrow> pydict" where
  "load_snapshot dk = (case snapshot dk of Snapshot d \<Rightarrow> d | _ \<Rightarrow> [])"

text \<open>\<open>KVStore(data_dir, enable_indexes=...)\<close>: the constructor is \<open>_recover\<close>.\<close>

definition recover :: "disk \<Rightarrow> bool \<Rightarrow> error + kvstore" where
  "recover dk enable_indexes =
     (case snapshot_raises dk of
        Some e \<Rightarrow> Inl e
      | None \<Rightarrow>
         (case replay (load_snapshot dk) (wal_lines dk) of
            Inl e \<Rightarrow> Inl e
          | Inr d \<Rightarrow>
             Inr \<lparr>data = d,
                  ft_index = (if enable_indexes then Some (rebuild_index d) else None),
                  files = dk\<rparr>))"

subsection \<open>\<open>_append_wal\<close> and \<open>_save_snapshot\<close>\<close>

text \<open>
  Text appended after an unfinished line continues that line. The line that results is
  not JSON, unless what was there was blank; where reading what was there raised, it still
  does.
\<close>

fun glue :: "wal_line option \<Rightarrow> wal_line \<Rightarrow> wal_line" where
  "glue None l = l"
| "glue (Some Blank) l = l"
| "glue (Some (Raising e)) l = Raising e"
| "glue (Some _) l = Undecodable"

definition append_wal :: "disk \<Rightarrow> json \<Rightarrow> wal_outcome \<Rightarrow> (error + unit) \<times> disk" where
  "append_wal dk entry out =
     (case out of
        WalWritten \<Rightarrow>
          (Inr (), dk\<lparr>wal := wal dk @ [glue (wal_tail dk) (Decoded entry)], wal_tail := None\<rparr>)
      | WalNothing \<Rightarrow> (Inl OSError, dk)
      | WalTorn \<Rightarrow> (Inl OSError, dk\<lparr>wal_tail := Some (glue (wal_tail dk) Undecodable)\<rparr>)
      | WalNoNewline \<Rightarrow>
          (Inl OSError, dk\<lparr>wal_tail := Some (glue (wal_tail dk) (Decoded entry))\<rparr>))"

definition save_snapshot :: "pydict \<Rightarrow> disk \<Rightarrow> bool \<Rightarrow> env \<Rightarrow> (error + unit) \<times> disk" where
  "save_snapshot d dk debug_simulate_fail ev =
     (if debug_simulate_fail \<and> random_below ev then (Inr (), dk)
      else case snap_out ev of
             SnapWritten \<Rightarrow> (Inr (), dk\<lparr>snapshot := Snapshot d\<rparr>)
           | SnapNothing \<Rightarrow> (Inl OSError, dk)
           | SnapTorn \<Rightarrow> (Inl OSError, dk\<lparr>snapshot := BadSnapshot\<rparr>))"

text \<open>The last two statements of \<open>set\<close>, \<open>delete\<close> and \<open>bulk_set\<close>.\<close>

definition persist :: "kvstore \<Rightarrow> json \<Rightarrow> bool \<Rightarrow> env \<Rightarrow> (error + unit) \<times> kvstore" where
  "persist st entry debug_simulate_fail ev =
     (case append_wal (files st) entry (wal_out ev) of
        (Inl e, dk) \<Rightarrow> (Inl e, st\<lparr>files := dk\<rparr>)
      | (Inr _, dk) \<Rightarrow>
         (case save_snapshot (data st) dk debug_simulate_fail ev of
            (r, dk') \<Rightarrow> (r, st\<lparr>files := dk'\<rparr>)))"

subsection \<open>\<open>get\<close>, \<open>set\<close>, \<open>delete\<close>, \<open>bulk_set\<close>, \<open>search_fulltext\<close>\<close>

definition set_entry :: "json \<Rightarrow> json \<Rightarrow> json" where
  "set_entry key value = JObj [(''op'', JStr ''set''), (''key'', key), (''value'', value)]"

definition delete_entry :: "json \<Rightarrow> json" where
  "delete_entry key = JObj [(''op'', JStr ''delete''), (''key'', key)]"

definition bulk_entry :: "json list list \<Rightarrow> json" where
  "bulk_entry items = JObj [(''op'', JStr ''bulk''), (''items'', JArr (map JArr items))]"

definition get_kv :: "kvstore \<Rightarrow> json \<Rightarrow> error + json" where
  "get_kv st key = dict_get (data st) key"

definition set_kv :: "kvstore \<Rightarrow> json \<Rightarrow> json \<Rightarrow> bool \<Rightarrow> env \<Rightarrow> (error + unit) \<times> kvstore" where
  "set_kv st key value debug_simulate_fail ev =
     (case dict_setitem (data st) key value of
        Inl e \<Rightarrow> (Inl e, st)
      | Inr d \<Rightarrow>
         persist (st\<lparr>data := d, ft_index := map_option (\<lambda>idx. index_value idx key value) (ft_index st)\<rparr>)
           (set_entry key value) debug_simulate_fail ev)"

definition delete_kv :: "kvstore \<Rightarrow> json \<Rightarrow> bool \<Rightarrow> env \<Rightarrow> (error + unit) \<times> kvstore" where
  "delete_kv st key debug_simulate_fail ev =
     (case dict_pop (data st) key of
        Inl e \<Rightarrow> (Inl e, st)
      | Inr d \<Rightarrow>
         (case forget_key (ft_index st) key of
            Inl e \<Rightarrow> (Inl e, st\<lparr>data := d\<rparr>)
          | Inr fi \<Rightarrow>
             persist (st\<lparr>data := d, ft_index := fi\<rparr>) (delete_entry key) debug_simulate_fail ev))"

text \<open>
  The loop of \<open>bulk_set\<close> over its tuples: a tuple that does not unpack into two, or a key
  that cannot be stored, raises with the earlier pairs already in the map.
\<close>

fun bulk_loop :: "kvstore \<Rightarrow> json list list \<Rightarrow> (error + unit) \<times> kvstore" where
  "bulk_loop st [] = (Inr (), st)"
| "bulk_loop st (item # items) =
     (case unpack_pair item of
        Inl e \<Rightarrow> (Inl e, st)
      | Inr (key, value) \<Rightarrow>
         (case dict_setitem (data st) key value of
            Inl e \<Rightarrow> (Inl e, st)
          | Inr d \<Rightarrow>
             bulk_loop
               (st\<lparr>data := d,
                   ft_index := map_option (\<lambda>idx. index_value idx key value) (ft_index st)\<rparr>)
               items))"

definition bulk_set :: "kvstore \<Rightarrow> json list list \<Rightarrow> bool \<Rightarrow> env \<Rightarrow> (error + unit) \<times> kvstore" where
  "bulk_set st items debug_simulate_fail ev =
     (if items = [] then (Inr (), st)
      else case bulk_loop st items of
             (Inl e, st') \<Rightarrow> (Inl e, st')
           | (Inr _, st') \<Rightarrow> persist st' (bulk_entry items) debug_simulate_fail ev)"

definition search_fulltext :: "kvstore \<Rightarrow> json \<Rightarrow> json set" where
  "search_fulltext st query = (case ft_index st of None \<Rightarrow> {} | Some idx \<Rightarrow> search idx query)"

section \<open>The standalone server: \<open>protocol.py\<close>, \<open>server.py\<close>\<close>

text \<open>
  \<open>encode_response\<close>: the dict \<open>msg\<close> that is dumped on the wire. The parameter \<open>value\<close>
  defaults to \<open>None\<close>, which is also what a JSON null decodes to.
\<close>

definition encode_response :: "bool \<Rightarrow> json \<Rightarrow> string option \<Rightarrow> json" where
  "encode_response ok value error =
     JObj ([(''ok'', JBool ok)]
           @ (if value \<noteq> JNull then [(''value'', value)] else [])
           @ (case error of None \<Rightarrow> [] | Some e \<Rightarrow> [(''error'', JStr e)]))"

text \<open>
  What the handler does with the connection for one request line. \<open>SentError e\<close> is the line
  \<open>encode_response(False, error=str(e))\<close> of the \<open>except Exception\<close> clause, the message text
  of the exception left open. \<open>SentKeys\<close> is \<open>encode_response(True, value=keys)\<close> for the list
  that \<open>search\<close> returned. \<open>SentSimilar\<close> is what the \<open>search_similar\<close> branch sends: its
  scores are floating-point numbers. \<open>Dropped e\<close>: the exception left \<open>handle_client\<close>, nothing
  was sent and the connection is closed.
\<close>

datatype reply = Sent json | SentError error | SentKeys "json set" | SentSimilar | Dropped error

text \<open>
  A request line: \<open>decode_request\<close> raised JSONDecodeError or UnicodeDecodeError, which the
  handler catches; it raised another exception (ValueError on an integer literal beyond the
  digit limit, RecursionError), which the handler does not catch; or the decoded value.
\<close>

datatype request_line = BadRequest | RequestRaises error | Request json

text \<open>\<open>[tuple(pair) for pair in raw]\<close>\<close>

fun tuples_of :: "json list \<Rightarrow> error + json list list" where
  "tuples_of [] = Inr []"
| "tuples_of (pair # raw) =
     (case py_iter pair of
        Inl e \<Rightarrow> Inl e
      | Inr t \<Rightarrow> (case tuples_of raw of Inl e \<Rightarrow> Inl e | Inr ts \<Rightarrow> Inr (t # ts)))"

definition missing_key :: json where
  "missing_key = encode_response False JNull (Some ''missing key'')"

definition ok_response :: json where
  "ok_response = encode_response True JNull None"

text \<open>The body of the loop of \<open>server.handle_client\<close> for one line of the buffer.\<close>

definition handle_request :: "kvstore \<Rightarrow> request_line \<Rightarrow> env \<Rightarrow> reply \<times> kvstore" where
  "handle_request st line ev =
     (case line of
        BadRequest \<Rightarrow> (Sent (encode_response False JNull (Some ''invalid request'')), st)
      | RequestRaises e \<Rightarrow> (Dropped e, st)
      | Request req \<Rightarrow>
         (case obj_get req ''method'' JNull of
            Inl e \<Rightarrow> (Dropped e, st)
          | Inr method \<Rightarrow>
             let debug = truthy (case obj_get req ''debug_simulate_fail'' (JBool False) of
                                   Inr b \<Rightarrow> b | Inl _ \<Rightarrow> JBool False);
                 key = (case obj_get req ''key'' JNull of Inr k \<Rightarrow> k | Inl _ \<Rightarrow> JNull);
                 value = (case obj_get req ''value'' JNull of Inr v \<Rightarrow> v | Inl _ \<Rightarrow> JNull)
             in
             if method = JStr ''get'' then
               (if key = JNull then (Sent missing_key, st)
                else case get_kv st key of
                       Inl e \<Rightarrow> (SentError e, st)
                     | Inr v \<Rightarrow> (Sent (encode_response True v None), st))
             else if method = JStr ''set'' then
               (if key = JNull then (Sent missing_key, st)
                else case set_kv st key value debug ev of
                       (Inl e, st') \<Rightarrow> (SentError e, st')
                     | (Inr _, st') \<Rightarrow> (Sent ok_response, st'))
             else if method = JStr ''delete'' then
               (if key = JNull then (Sent missing_key, st)
                else case delete_kv st key debug ev of
                       (Inl e, st') \<Rightarrow> (SentError e, st')
                     | (Inr _, st') \<Rightarrow> (Sent ok_response, st'))
             else if method = JStr ''bulk_set'' then
               (case obj_get req ''items'' (JArr []) of
                  Inl e \<Rightarrow> (SentError e, st)
                | Inr raw \<Rightarrow>
                   (case py_iter raw of
                      Inl e \<Rightarrow> (SentError e, st)
                    | Inr pairs \<Rightarrow>
                       (case tuples_of pairs of
                          Inl e \<Rightarrow> (SentError e, st)
                        | Inr items \<Rightarrow>
                           (case bulk_set st items debug ev of
                              (Inl e, st') \<Rightarrow> (SentError e, st')
                            | (Inr _, st') \<Rightarrow> (Sent ok_response, st')))))
             else if method = JStr ''search'' then
               (case obj_get req ''query'' (JStr []) of
                  Inl e \<Rightarrow> (SentError e, st)
                | Inr query \<Rightarrow> (SentKeys (search_fulltext st query), st))
             else if method = JStr ''search_similar'' then (SentSimilar, st)
             else
               (Sent (encode_response False JNull (Some (''unknown method: '' @ py_str method))),
                st)))"

section \<open>The cluster node: \<open>cluster_node.py\<close>\<close>

text \<open>
  The variables of \<open>run_cluster_node\<close> that its closures share. \<open>receiver\<close> tells whether a
  \<open>ReplicationReceiver\<close> is held, \<open>sender\<close> holds the ports the \<open>ReplicationSender\<close> is
  connected to, or \<open>None\<close>.
\<close>

record node =
  node_id :: int
  kv_port :: int
  secondary_repl_ports :: "int list"
  other_kv_ports :: "int list"
  is_primary :: bool
  receiver :: bool
  sender :: "int list option"
  store :: kvstore

text \<open>
  What the network does during one step: the outcome of a \<open>role\<close> probe of a port (no
  usable line came back, or the decoded answer), whether a connect to a replication port
  succeeds, whether a send on an open connection succeeds.
\<close>

datatype probe_result = NoAnswer | Answer json

record net =
  probe :: "int \<Rightarrow> probe_result"
  connect_ok :: "int \<Rightarrow> bool"
  send_ok :: "int \<Rightarrow> bool"

text \<open>\<open>run_cluster_node\<close> up to the start of its threads, on a store already constructed.\<close>

definition start_node :: "int \<Rightarrow> int \<Rightarrow> int list \<Rightarrow> int list \<Rightarrow> kvstore \<Rightarrow> net \<Rightarrow> node" where
  "start_node nid port repl_ports kv_ports st nw =
     \<lparr>node_id = nid, kv_port = port, secondary_repl_ports = repl_ports,
      other_kv_ports = kv_ports, is_primary = (nid = 0), receiver = (nid \<noteq> 0),
      sender = (if nid = 0 then Some (filter (connect_ok nw) repl_ports) else None),
      store = st\<rparr>"

text \<open>\<open>entry["key"]\<close> on a dict.\<close>

fun obj_index :: "json \<Rightarrow> string \<Rightarrow> error + json" where
  "obj_index (JObj kvs) name = (case map_of kvs name of None \<Rightarrow> Inl KeyError | Some v \<Rightarrow> Inr v)"
| "obj_index _ name = Inl TypeError"

text \<open>\<open>for k, v in entry.get("items", []): store._data[k] = v\<close>, on a live map.\<close>

fun assign_items :: "pydict \<Rightarrow> json list \<Rightarrow> (error + unit) \<times> pydict" where
  "assign_items d [] = (Inr (), d)"
| "assign_items d (item # items) =
     (case py_iter item of
        Inl e \<Rightarrow> (Inl e, d)
      | Inr t \<Rightarrow>
         (case unpack_pair t of
            Inl e \<Rightarrow> (Inl e, d)
          | Inr (k, v) \<Rightarrow>
             (case dict_setitem d k v of
                Inl e \<Rightarrow> (Inl e, d)
              | Inr d' \<Rightarrow> assign_items d' items)))"

text \<open>
  The three branches on \<open>op\<close> shared by \<open>apply_and_replicate\<close> and
  \<open>ReplicationReceiver.run\<close>.
\<close>

definition apply_to_map :: "pydict \<Rightarrow> json \<Rightarrow> (error + unit) \<times> pydict" where
  "apply_to_map d entry =
     (case obj_get entry ''op'' JNull of
        Inl e \<Rightarrow> (Inl e, d)
      | Inr op \<Rightarrow>
         if op = JStr ''set'' then
           (case obj_index entry ''key'' of
              Inl e \<Rightarrow> (Inl e, d)
            | Inr key \<Rightarrow>
               (case obj_index entry ''value'' of
                  Inl e \<Rightarrow> (Inl e, d)
                | Inr value \<Rightarrow>
                   (case dict_setitem d key value of
                      Inl e \<Rightarrow> (Inl e, d)
                    | Inr d' \<Rightarrow> (Inr (), d'))))
         else if op = JStr ''delete'' then
           (case obj_get entry ''key'' JNull of
              Inl e \<Rightarrow> (Inl e, d)
            | Inr key \<Rightarrow>
               (case dict_pop d key of Inl e \<Rightarrow> (Inl e, d) | Inr d' \<Rightarrow> (Inr (), d')))
         else if op = JStr ''bulk'' then
           (case obj_get entry ''items'' (JArr []) of
              Inl e \<Rightarrow> (Inl e, d)
            | Inr items \<Rightarrow>
               (case py_iter items of
                  Inl e \<Rightarrow> (Inl e, d)
                | Inr its \<Rightarrow> assign_items d its))
         else (Inr (), d))"

definition apply_and_replicate :: "node \<Rightarrow> json \<Rightarrow> env \<Rightarrow> net \<Rightarrow> (error + unit) \<times> node" where
  "apply_and_replicate n entry ev nw =
     (case apply_to_map (data (store n)) entry of
        (Inl e, d) \<Rightarrow> (Inl e, n\<lparr>store := (store n)\<lparr>data := d\<rparr>\<rparr>)
      | (Inr _, d) \<Rightarrow>
         (case persist ((store n)\<lparr>data := d\<rparr>) entry False ev of
            (Inl e, st') \<Rightarrow> (Inl e, n\<lparr>store := st'\<rparr>)
          | (Inr _, st') \<Rightarrow>
             (Inr (), n\<lparr>store := st', sender := map_option (filter (send_ok nw)) (sender n)\<rparr>)))"

definition role_response :: "bool \<Rightarrow> int \<Rightarrow> json" where
  "role_response primary nid =
     JObj [(''ok'', JBool True), (''primary'', JBool primary), (''node_id'', JInt nid)]"

definition not_primary :: json where
  "not_primary = encode_response False JNull (Some ''not primary'')"

text \<open>The body of the loop of \<open>handle_client\<close> in \<open>run_cluster_node\<close> for one line.\<close>

definition node_handle_request :: "node \<Rightarrow> request_line \<Rightarrow> env \<Rightarrow> net \<Rightarrow> reply \<times> node" where
  "node_handle_request n line ev nw =
     (case line of
        BadRequest \<Rightarrow> (Sent (encode_response False JNull (Some ''invalid request'')), n)
      | RequestRaises e \<Rightarrow> (Dropped e, n)
      | Request req \<Rightarrow>
         (case obj_get req ''method'' JNull of
            Inl e \<Rightarrow> (Dropped e, n)
          | Inr method \<Rightarrow>
             if method = JStr ''role'' then (Sent (role_response (is_primary n) (node_id n)), n)
             else if \<not> is_primary n then (Sent not_primary, n)
             else
               let key = (case obj_get req ''key'' JNull of Inr k \<Rightarrow> k | Inl _ \<Rightarrow> JNull);
                   value = (case obj_get req ''value'' JNull of Inr v \<Rightarrow> v | Inl _ \<Rightarrow> JNull)
               in
               if method = JStr ''get'' then
                 (if key = JNull then (Sent missing_key, n)
                  else case get_kv (store n) key of
                         Inl e \<Rightarrow> (SentError e, n)
                       | Inr v \<Rightarrow> (Sent (encode_response True v None), n))
               else if method = JStr ''set'' then
                 (if key = JNull then (Sent missing_key, n)
                  else case apply_and_replicate n (set_entry key value) ev nw of
                         (Inl e, n') \<Rightarrow> (SentError e, n')
                       | (Inr _, n') \<Rightarrow> (Sent ok_response, n'))
               else if method = JStr ''delete'' then
                 (if key = JNull then (Sent missing_key, n)
                  else case apply_and_replicate n (delete_entry key) ev nw of
                         (Inl e, n') \<Rightarrow> (SentError e, n')
                       | (Inr _, n') \<Rightarrow> (Sent ok_response, n'))
               else if method = JStr ''bulk_set'' then
                 (case obj_get req ''items'' (JArr []) of
                    Inl e \<Rightarrow> (SentError e, n)
                  | Inr raw \<Rightarrow>
                     (case py_iter raw of
                        Inl e \<Rightarrow> (SentError e, n)
                      | Inr pairs \<Rightarrow>
                         (case tuples_of pairs of
                            Inl e \<Rightarrow> (SentError e, n)
                          | Inr items \<Rightarrow>
                             (if items = [] then (Sent ok_response, n)
                              else case apply_and_replicate n (bulk_entry items) ev nw of
                                     (Inl e, n') \<Rightarrow> (SentError e, n')
                                   | (Inr _, n') \<Rightarrow> (Sent ok_response, n')))))
               else
                 (Sent (encode_response False JNull (Some (''unknown method: '' @ py_str method))),
                  n)))"

text \<open>
  \<open>ReplicationReceiver.run\<close> for one received entry: the map is changed in place, with
  no WAL append; an exception ends the session with what was assigned so far.
\<close>

definition receive_entry :: "node \<Rightarrow> json \<Rightarrow> node" where
  "receive_entry n entry = n\<lparr>store := (store n)\<lparr>data := snd (apply_to_map (data (store n)) entry)\<rparr>\<rparr>"

subsection \<open>\<open>election_loop\<close>\<close>

text \<open>\<open>a < b\<close> for a decoded value and an int: bools count as 0 and 1, other types raise.\<close>

fun less_than_int :: "json \<Rightarrow> int \<Rightarrow> error + bool" where
  "less_than_int (JInt i) b = Inr (i < b)"
| "less_than_int (JBool t) b = Inr ((if t then 1 else 0) < b)"
| "less_than_int _ b = Inl TypeError"

text \<open>
  \<open>r.get("primary") and r.get("node_id", 999) < node_id\<close> for one probed port; an
  exception anywhere in the \<open>try\<close> is passed over.
\<close>

definition lower_primary :: "int \<Rightarrow> probe_result \<Rightarrow> bool" where
  "lower_primary my_id pr =
     (case pr of
        NoAnswer \<Rightarrow> False
      | Answer r \<Rightarrow>
         (case obj_get r ''primary'' JNull of
            Inl _ \<Rightarrow> False
          | Inr p \<Rightarrow>
             if truthy p then
               (case obj_get r ''node_id'' (JInt 999) of
                  Inl _ \<Rightarrow> False
                | Inr i \<Rightarrow> (case less_than_int i my_id of Inl _ \<Rightarrow> False | Inr b \<Rightarrow> b))
             else False))"

text \<open>The \<open>for p in other_kv_ports\<close> loop: the value of \<open>other_primary\<close> after it.\<close>

fun probe_ports :: "node \<Rightarrow> net \<Rightarrow> int list \<Rightarrow> bool" where
  "probe_ports n nw [] = False"
| "probe_ports n nw (p # ps) =
     (if p = kv_port n then probe_ports n nw ps
      else if lower_primary (node_id n) (probe nw p) then True
      else probe_ports n nw ps)"

definition promote :: "node \<Rightarrow> net \<Rightarrow> node" where
  "promote n nw =
     n\<lparr>receiver := False, is_primary := True,
       sender := Some (filter (connect_ok nw) (secondary_repl_ports n))\<rparr>"

text \<open>One turn of the \<open>while True\<close> loop of \<open>election_loop\<close>.\<close>

definition election_round :: "node \<Rightarrow> net \<Rightarrow> node" where
  "election_round n nw =
     (if is_primary n then n
      else if probe_ports n nw (other_kv_ports n) then n
      else promote n nw)"

section \<open>\<open>ClusterNode\<close> of \<open>replication.py\<close>\<close>

text \<open>
  The class keeps the same state as \<open>run_cluster_node\<close>; the record \<open>node\<close> is used for it,
  with \<open>peer_kv_ports\<close> as \<open>other_kv_ports\<close> and \<open>peer_repl_ports\<close> as
  \<open>secondary_repl_ports\<close>.
\<close>

text \<open>
  The loop of \<open>_run_election\<close> over \<open>peer_kv_ports\<close>: \<open>True\<close> when it returns from inside
  the loop.
\<close>

definition gives_way :: "int \<Rightarrow> probe_result \<Rightarrow> bool" where
  "gives_way my_id pr =
     (case pr of
        NoAnswer \<Rightarrow> False
      | Answer r \<Rightarrow>
         (case obj_get r ''primary'' JNull of
            Inl _ \<Rightarrow> False
          | Inr p \<Rightarrow>
             if truthy p then True
             else
               (case obj_get r ''node_id'' (JInt 999) of
                  Inl _ \<Rightarrow> False
                | Inr i \<Rightarrow> (case less_than_int i my_id of Inl _ \<Rightarrow> False | Inr b \<Rightarrow> b))))"

fun ask_peers :: "node \<Rightarrow> net \<Rightarrow> int list \<Rightarrow> bool" where
  "ask_peers n nw [] = False"
| "ask_peers n nw (p # ps) =
     (if p = kv_port n then ask_peers n nw ps
      else if gives_way (node_id n) (probe nw p) then True
      else ask_peers n nw ps)"

text \<open>\<open>_become_primary\<close>, with \<open>_start_primary\<close> inlined.\<close>

definition become_primary :: "node \<Rightarrow> net \<Rightarrow> node" where
  "become_primary n nw =
     n\<lparr>receiver := False, is_primary := True,
       sender := Some (filter (connect_ok nw) (secondary_repl_ports n))\<rparr>"

definition run_election :: "node \<Rightarrow> net \<Rightarrow> node" where
  "run_election n nw =
     (if is_primary n then n
      else if ask_peers n nw (other_kv_ports n) then n
      else become_primary n nw)"

text \<open>\<open>ClusterNode.apply_and_replicate\<close>: no WAL append, the entry goes to the sender only.\<close>

datatype cluster_error = NotPrimary | Raised error

definition cn_apply_and_replicate :: "node \<Rightarrow> json \<Rightarrow> net \<Rightarrow> (cluster_error + unit) \<times> node" where
  "cn_apply_and_replicate n entry nw =
     (if \<not> is_primary n then (Inl NotPrimary, n)
      else case apply_to_map (data (store n)) entry of
             (Inl e, d) \<Rightarrow> (Inl (Raised e), n\<lparr>store := (store n)\<lparr>data := d\<rparr>\<rparr>)
           | (Inr _, d) \<Rightarrow>
              (Inr (), n\<lparr>store := (store n)\<lparr>data := d\<rparr>,
                        sender := map_option (filter (send_ok nw)) (sender n)\<rparr>))"

section \<open>Steps of a node\<close>

text \<open>
  What can happen to a node of \<open>cluster_node.py\<close> during its process lifetime: a client
  request is handled, the election loop takes a turn, the receiver thread gets an entry.
\<close>

datatype event = ClientRequest request_line env | ElectionTurn | Replicated json

fun node_step :: "node \<Rightarrow> event \<times> net \<Rightarrow> node" where
  "node_step n (ClientRequest line ev, nw) = snd (node_handle_request n line ev nw)"
| "node_step n (ElectionTurn, nw) = election_round n nw"
| "node_step n (Replicated entry, nw) = receive_entry n entry"

text \<open>
  The same for a \<open>ClusterNode\<close> of \<open>replication.py\<close>: \<open>apply_and_replicate\<close> is called,
  \<open>_election_loop\<close> calls \<open>_run_election\<close>, the receiver applies an entry.
\<close>

datatype cn_event = CnApply json | CnElection | CnReplicated json

fun cn_step :: "node \<Rightarrow> cn_event \<times> net \<Rightarrow> node" where
  "cn_step n (CnApply entry, nw) = snd (cn_apply_and_replicate n entry nw)"
| "cn_step n (CnElection, nw) = run_election n nw"
| "cn_step n (CnReplicated entry, nw) = receive_entry n entry"

section \<open>Calls with arguments of the declared types\<close>

text \<open>
  A mutation as a client of \<open>KVStore\<close> issues it, with keys that are \<open>str\<close> as the
  signatures say: \<open>set(key, value)\<close>, \<open>delete(key)\<close>, \<open>bulk_set(items)\<close> with
  \<open>items: list[tuple[str, Any]]\<close>.
\<close>

datatype mutation = Set string json | Delete string | Bulk "(string \<times> json) list"

definition tuples :: "(string \<times> json) list \<Rightarrow> json list list" where
  "tuples kvs = map (\<lambda>kv. [JStr (fst kv), snd kv]) kvs"

fun call :: "kvstore \<Rightarrow> mutation \<Rightarrow> bool \<Rightarrow> env \<Rightarrow> (error + unit) \<times> kvstore" where
  "call st (Set k v) dbg ev = set_kv st (JStr k) v dbg ev"
| "call st (Delete k) dbg ev = delete_kv st (JStr k) dbg ev"
| "call st (Bulk kvs) dbg ev = bulk_set st (tuples kvs) dbg ev"

text \<open>The request line a client sends for it (\<open>client.py\<close>).\<close>

fun request_of :: "mutation \<Rightarrow> bool \<Rightarrow> json" where
  "request_of (Set k v) dbg =
     JObj [(''method'', JStr ''set''), (''key'', JStr k), (''value'', v),
           (''debug_simulate_fail'', JBool dbg)]"
| "request_of (Delete k) dbg =
     JObj [(''method'', JStr ''delete''), (''key'', JStr k), (''debug_simulate_fail'', JBool dbg)]"
| "request_of (Bulk kvs) dbg =
     JObj [(''method'', JStr ''bulk_set''), (''items'', JArr (map JArr (tuples kvs))),
           (''debug_simulate_fail'', JBool dbg)]"

text \<open>The entry it logs, and the line of the WAL that holds it.\<close>

fun entry_of :: "mutation \<Rightarrow> json" where
  "entry_of (Set k v) = set_entry (JStr k) v"
| "entry_of (Delete k) = delete_entry (JStr k)"
| "entry_of (Bulk kvs) = bulk_entry (tuples kvs)"

definition entry_line :: "mutation \<Rightarrow> wal_line" where
  "entry_line m = Decoded (entry_of m)"

text \<open>What it does to a dict, and to the dict seen as a map from keys to values.\<close>

definition store_pair :: "pydict \<Rightarrow> string \<times> json \<Rightarrow> pydict" where
  "store_pair d kv = AList.update (fst kv) (snd kv) d"

fun apply_mutation :: "pydict \<Rightarrow> mutation \<Rightarrow> pydict" where
  "apply_mutation d (Set k v) = AList.update k v d"
| "apply_mutation d (Delete k) = AList.delete k d"
| "apply_mutation d (Bulk kvs) = foldl store_pair d kvs"

definition map_pair :: "(string \<rightharpoonup> json) \<Rightarrow> string \<times> json \<Rightarrow> (string \<rightharpoonup> json)" where
  "map_pair f kv = f(fst kv \<mapsto> snd kv)"

fun effect :: "(string \<rightharpoonup> json) \<Rightarrow> mutation \<Rightarrow> (string \<rightharpoonup> json)" where
  "effect f (Set k v) = f(k \<mapsto> v)"
| "effect f (Delete k) = f(k := None)"
| "effect f (Bulk kvs) = foldl map_pair f kvs"

text \<open>The keys it writes.\<close>

fun touches :: "mutation \<Rightarrow> string set" where
  "touches (Set k v) = {k}"
| "touches (Delete k) = {k}"
| "touches (Bulk kvs) = fst ` set kvs"

definition touched :: "mutation list \<Rightarrow> string set" where
  "touched ms = (\<Union>m \<in> set ms. touches m)"

text \<open>
  A sequence of calls in one process; a call that raises is answered with an error and
  the process goes on. \<open>logged\<close> lists the calls that append a line: all but the
  \<open>bulk_set\<close> of an empty list.
\<close>

type_synonym step = "mutation \<times> bool \<times> env"

definition run :: "kvstore \<Rightarrow> step list \<Rightarrow> kvstore" where
  "run st steps = foldl (\<lambda>s c. snd (call s (fst c) (fst (snd c)) (snd (snd c)))) st steps"

definition logged :: "step list \<Rightarrow> mutation list" where
  "logged steps = filter (\<lambda>m. m \<noteq> Bulk []) (map fst steps)"

definition wal_written :: "step \<Rightarrow> bool" where
  "wal_written c = (wal_out (snd (snd c)) = WalWritten)"


text \<open>What a mutation does to the full-text index.\<close>

definition index_pairs :: "ft_index \<Rightarrow> (string \<times> json) list \<Rightarrow> ft_index" where
  "index_pairs idx kvs = foldl (\<lambda>i kv. index_value i (JStr (fst kv)) (snd kv)) idx kvs"

fun index_mutation :: "ft_index \<Rightarrow> mutation \<Rightarrow> ft_index" where
  "index_mutation idx (Set k v) = index_value idx (JStr k) v"
| "index_mutation idx (Delete k) = remove_key idx (JStr k)"
| "index_mutation idx (Bulk kvs) = index_pairs idx kvs"

text \<open>Fixed inputs for the examples: a store on an empty directory, a call whose writes all succeed.\<close>

definition get_request :: "string \<Rightarrow> json" where
  "get_request k = JObj [(''method'', JStr ''get''), (''key'', JStr k)]"

definition empty_store :: kvstore where
  "empty_store = \<lparr>data = [], ft_index = None, files = fresh_disk\<rparr>"

definition all_written :: env where
  "all_written = \<lparr>wal_out = WalWritten, random_below = False, snap_out = SnapWritten\<rparr>"

definition secondary_one :: node where
  "secondary_one = \<lparr>node_id = 1, kv_port = 9001, secondary_repl_ports = [9100, 9102],
     other_kv_ports = [9000, 9001, 9002], is_primary = False, receiver = True, sender = None,
     store = empty_store\<rparr>"

definition primary_zero :: node where
  "primary_zero = \<lparr>node_id = 0, kv_port = 9000, secondary_repl_ports = [9101, 9102],
     other_kv_ports = [9000, 9001, 9002], is_primary = True, receiver = False, sender = Some [],
     store = empty_store\<rparr>"

definition silent_net :: net where
  "silent_net = \<lparr>probe = (\<lambda>p. NoAnswer), connect_ok = (\<lambda>p. False), send_ok = (\<lambda>p. False)\<rparr>"

text \<open>A network in which port 9002 answers the probe as a primary with \<open>node_id\<close> 2.\<close>

definition higher_primary_net :: net where
  "higher_primary_net =
     \<lparr>probe = (\<lambda>p. if p = 9002 then Answer (role_response True 2) else NoAnswer),
      connect_ok = (\<lambda>p. False), send_ok = (\<lambda>p. False)\<rparr>"

section \<open>What an election round sees\<close>

text \<open>
  Every probed port gave no usable answer, or the line that the \<open>role\<close> branch of
  \<open>handle_client\<close> sends.
\<close>

definition role_answers :: "net \<Rightarrow> int list \<Rightarrow> bool" where
  "role_answers nw ports =
     (\<forall>p \<in> set ports. probe nw p = NoAnswer \<or> (\<exists>b i. probe nw p = Answer (role_response b i)))"

text \<open>Some other node answered as primary with a smaller \<open>node_id\<close>.\<close>

definition lower_primary_seen :: "node \<Rightarrow> net \<Rightarrow> bool" where
  "lower_primary_seen n nw =
     (\<exists>p \<in> set (other_kv_ports n). p \<noteq> kv_port n \<and>
        (\<exists>i. probe nw p = Answer (role_response True i) \<and> i < node_id n))"

text \<open>Some other node answered as primary, or answered with a smaller \<open>node_id\<close>.\<close>

definition primary_or_lower_seen :: "node \<Rightarrow> net \<Rightarrow> bool" where
  "primary_or_lower_seen n nw =
     (\<exists>p \<in> set (other_kv_ports n). p \<noteq> kv_port n \<and>
        (\<exists>b i. probe nw p = Answer (role_response b i) \<and> (b \<or> i < node_id n)))"

section \<open>Crash points\<close>






text \<open>
  The snapshot at a crash is one the store wrote or began to write: missing, text that is
  not JSON (torn), or a dumped dict. A snapshot is written after the line of its call is
  in the WAL, so a dumped dict holds the map of some \<open>j\<close> first mutations, \<open>j\<close> at most the
  number of whole lines.
\<close>

definition prefix_snapshot :: "mutation list \<Rightarrow> nat \<Rightarrow> snapshot_file \<Rightarrow> bool" where
  "prefix_snapshot ms n snap =
     (case snap of
        NoSnapshot \<Rightarrow> True
      | BadSnapshot \<Rightarrow> True
      | Snapshot s \<Rightarrow> (\<exists>j \<le> n. map_of s = foldl effect Map.empty (take j ms))
      | RaisingSnapshot e \<Rightarrow> False
      | NotObjectSnapshot \<Rightarrow> False)"



definition torn_write :: env where
  "torn_write = \<lparr>wal_out = WalTorn, random_below = False, snap_out = SnapWritten\<rparr>"

section \<open>Files and map in step\<close>

text \<open>
  A directory whose WAL holds the whole lines of the mutations \<open>ms\<close> and nothing else, and
  whose snapshot, when it holds a dumped dict, is the map of a prefix of them; and a store on such a
  directory whose map is the map of \<open>ms\<close>.
\<close>

definition consistent_disk :: "disk \<Rightarrow> mutation list \<Rightarrow> bool" where
  "consistent_disk dk ms =
     (wal dk = map entry_line ms \<and> wal_tail dk = None
      \<and> prefix_snapshot ms (length ms) (snapshot dk))"

definition consistent :: "kvstore \<Rightarrow> mutation list \<Rightarrow> bool" where
  "consistent st ms =
     (consistent_disk (files st) ms \<and> map_of (data st) = foldl effect Map.empty ms)"

definition wal_refused :: env where
  "wal_refused = \<lparr>wal_out = WalNothing, random_below = False, snap_out = SnapWritten\<rparr>"

definition snapshot_skipped :: env where
  "snapshot_skipped = \<lparr>wal_out = WalWritten, random_below = True, snap_out = SnapWritten\<rparr>"

section \<open>Acknowledged writes\<close>

text \<open>The files a call leaves behind, from the files and the map it persists.\<close>

definition disk_after :: "disk \<Rightarrow> pydict \<Rightarrow> json \<Rightarrow> bool \<Rightarrow> env \<Rightarrow> disk" where
  "disk_after dk d entry dbg ev =
     (case append_wal dk entry (wal_out ev) of
        (Inl e, dk') \<Rightarrow> dk'
      | (Inr u, dk') \<Rightarrow> snd (save_snapshot d dk' dbg ev))"

text \<open>
  The value a mutation leaves at a key: \<open>set(k, v)\<close> leaves \<open>v\<close> at \<open>k\<close>, a \<open>bulk_set\<close>
  leaves at \<open>k\<close> the value of its last pair for \<open>k\<close>.
\<close>

fun written :: "mutation \<Rightarrow> string \<Rightarrow> json option" where
  "written (Set k' v) k = (if k = k' then Some v else None)"
| "written (Delete k') k = None"
| "written (Bulk kvs) k = map_of (rev kvs) k"

text \<open>A call whose WAL append wrote its whole line or nothing; a call that does not write \<open>k\<close>.\<close>

definition clean_write :: "step \<Rightarrow> bool" where
  "clean_write c = (wal_out (snd (snd c)) = WalWritten \<or> wal_out (snd (snd c)) = WalNothing)"

definition avoids :: "string \<Rightarrow> step \<Rightarrow> bool" where
  "avoids k c = (k \<notin> touches (fst c))"

text \<open>A WAL of whole entry lines and nothing else.\<close>

definition whole_lines :: "disk \<Rightarrow> mutation list \<Rightarrow> bool" where
  "whole_lines dk ms = (wal dk = map entry_line ms \<and> wal_tail dk = None)"

text \<open>
  A line that cannot change what the replay has at \<open>k\<close>: one that ends the replay, or the
  line of a mutation that does not write \<open>k\<close>. \<open>kept k v dk\<close>: the WAL starts with whole
  entry lines that leave \<open>v\<close> at \<open>k\<close>, and all that follows is harmless for \<open>k\<close>.
\<close>

definition harmless :: "string \<Rightarrow> wal_line \<Rightarrow> bool" where
  "harmless k l = (l = Undecodable \<or> (\<exists>m. l = entry_line m \<and> k \<notin> touches m))"

definition kept :: "string \<Rightarrow> json \<Rightarrow> disk \<Rightarrow> bool" where
  "kept k v dk =
     (\<exists>ms ls. wal dk = map entry_line ms @ ls
        \<and> (\<forall>f. foldl effect f ms k = Some v)
        \<and> list_all (harmless k) ls
        \<and> (case wal_tail dk of None \<Rightarrow> True | Some t \<Rightarrow> harmless k t))"

text \<open>The directory after a crash inside the first WAL line.\<close>

definition torn_disk :: disk where
  "torn_disk = \<lparr>wal = [], wal_tail = Some Undecodable, snapshot = NoSnapshot\<rparr>"

section \<open>Index and map in step\<close>

text \<open>
  The tokens of a stored value; an index that lists a key under a word exactly when the map
  holds the key with a value that has the word among its tokens; and the keys the claim
  about \<open>search\<close> names: those whose stored value has every token of the query.
\<close>

definition tokens_of :: "json \<Rightarrow> string set" where
  "tokens_of v = set (tokenize (JStr (py_str v)))"

definition index_matches :: "ft_index \<Rightarrow> pydict \<Rightarrow> bool" where
  "index_matches idx d =
     (\<forall>w key. key \<in> posting idx w \<longleftrightarrow>
        (\<exists>k v. key = JStr k \<and> map_of d k = Some v \<and> w \<in> tokens_of v))"

definition matching_keys :: "pydict \<Rightarrow> json \<Rightarrow> json set" where
  "matching_keys d query =
     {JStr k | k v. map_of d k = Some v \<and> set (tokenize query) \<subseteq> tokens_of v}"

text \<open>A snapshot as \<open>json.load\<close> returns it is a dict: no key twice.\<close>

definition snapshot_wellformed :: "disk \<Rightarrow> bool" where
  "snapshot_wellformed dk = distinct (map fst (load_snapshot dk))"

text \<open>The store that \<open>KVStore(enable_indexes=True)\<close> constructs on an empty directory.\<close>

definition indexed_store :: kvstore where
  "indexed_store = \<lparr>data = [], ft_index = Some Map.empty, files = fresh_disk\<rparr>"

section \<open>Replaying logged entries\<close>

lemma recover_loaded:
  assumes "snapshot_raises dk = None"
  shows "recover dk b =
           (case replay (load_snapshot dk) (wal_lines dk) of
              Inl e \<Rightarrow> Inl e
            | Inr d \<Rightarrow>
               Inr \<lparr>data = d, ft_index = (if b then Some (rebuild_index d) else None),
                    files = dk\<rparr>)"
  using assms by (simp add: recover_def)

lemma recovered_loaded: "recover dk b = Inr st \<Longrightarrow> snapshot_raises dk = None"
  by (cases "snapshot_raises dk") (simp_all add: recover_def)

lemma prefix_snapshot_loaded:
  "prefix_snapshot ms n (snapshot dk) \<Longrightarrow> snapshot_raises dk = None"
  by (cases "snapshot dk") (simp_all add: prefix_snapshot_def snapshot_raises_def)

lemma forget_key_str:
  "forget_key fi (JStr k) = Inr (map_option (\<lambda>idx. remove_key idx (JStr k)) fi)"
  by (cases fi) simp_all

lemma delete_kv_str:
  "delete_kv st (JStr k) dbg ev =
     persist (st\<lparr>data := AList.delete k (data st),
                 ft_index := map_option (\<lambda>idx. remove_key idx (JStr k)) (ft_index st)\<rparr>)
       (delete_entry (JStr k)) dbg ev"
  by (simp add: delete_kv_def forget_key_str)

lemma replay_items_tuples:
  "replay_items d (map JArr (tuples kvs)) = Inr (foldl store_pair d kvs)"
  by (induction kvs arbitrary: d) (simp_all add: tuples_def store_pair_def)

lemma replay_entry_of: "replay_entry d (entry_of m) = Inr (apply_mutation d m)"
  by (cases m)
    (simp_all add: replay_entry_def set_entry_def delete_entry_def bulk_entry_def replay_items_tuples)

lemma replay_entry_lines:
  "replay d (map entry_line ms @ ls) = replay (foldl apply_mutation d ms) ls"
  by (induction ms arbitrary: d) (simp_all add: entry_line_def replay_entry_of)

lemma map_of_store_pair: "map_of (store_pair d kv) = map_pair (map_of d) kv"
  by (simp add: store_pair_def map_pair_def update_conv')

lemma map_of_bulk: "map_of (foldl store_pair d kvs) = foldl map_pair (map_of d) kvs"
  by (induction kvs arbitrary: d) (simp_all add: map_of_store_pair)

lemma map_of_apply_mutation: "map_of (apply_mutation d m) = effect (map_of d) m"
  by (cases m) (simp_all add: update_conv' delete_conv' map_of_bulk)

lemma map_of_apply_mutations:
  "map_of (foldl apply_mutation d ms) = foldl effect (map_of d) ms"
  by (induction ms arbitrary: d) (simp_all add: map_of_apply_mutation)

lemma map_pair_add: "map_pair f kv ++ g = f ++ (map_of [kv] ++ g)"
  by (cases kv) (auto simp: map_pair_def map_add_def fun_eq_iff split: option.splits)

lemma bulk_as_map_add: "foldl map_pair f kvs = f ++ map_of (rev kvs)"
proof (induction kvs arbitrary: f)
  case Nil
  then show ?case by simp
next
  case (Cons kv kvs)
  have "foldl map_pair f (kv # kvs) = map_pair f kv ++ map_of (rev kvs)"
    using Cons.IH by simp
  also have "\<dots> = f ++ (map_of [kv] ++ map_of (rev kvs))"
    by (rule map_pair_add)
  also have "\<dots> = f ++ map_of (rev (kv # kvs))"
    by simp
  finally show ?case .
qed

lemma bulk_untouched:
  assumes "k \<notin> fst ` set kvs"
  shows "foldl map_pair f kvs k = f k"
proof -
  have "map_of (rev kvs) k = None"
    using assms by (simp add: map_of_eq_None_iff)
  then show ?thesis
    by (simp add: bulk_as_map_add map_add_def)
qed

lemma bulk_touched:
  assumes "k \<in> fst ` set kvs"
  shows "foldl map_pair f kvs k = map_of (rev kvs) k"
proof -
  have "map_of (rev kvs) k \<noteq> None"
    using assms by (simp add: map_of_eq_None_iff)
  then show ?thesis
    by (auto simp add: bulk_as_map_add map_add_def split: option.splits)
qed

lemma effect_untouched: "k \<notin> touches m \<Longrightarrow> effect f m k = f k"
  by (cases m) (auto simp: bulk_untouched)

lemma effect_touched: "k \<in> touches m \<Longrightarrow> effect f m k = effect g m k"
  by (cases m) (auto simp: bulk_touched)

lemma effects_untouched: "k \<notin> touched ms \<Longrightarrow> foldl effect f ms k = f k"
  by (induction ms arbitrary: f) (auto simp: touched_def effect_untouched)

lemma effects_touched: "k \<in> touched ms \<Longrightarrow> foldl effect f ms k = foldl effect g ms k"
proof (induction ms arbitrary: f g)
  case Nil
  then show ?case by (simp add: touched_def)
next
  case (Cons m ms)
  show ?case
  proof (cases "k \<in> touched ms")
    case True
    then show ?thesis using Cons.IH by simp
  next
    case False
    with Cons.prems have "k \<in> touches m" by (simp add: touched_def)
    then show ?thesis using False by (simp add: effects_untouched effect_touched [of k m f g])
  qed
qed


lemma bulk_loop_tuples:
  "bulk_loop st (tuples kvs) =
     (Inr (), st\<lparr>data := foldl store_pair (data st) kvs,
                 ft_index := map_option (\<lambda>i. index_pairs i kvs) (ft_index st)\<rparr>)"
proof (induction kvs arbitrary: st)
  case Nil
  then show ?case by (simp add: tuples_def index_pairs_def option.map_ident)
next
  case (Cons kv kvs)
  have "bulk_loop st (tuples (kv # kvs)) =
          bulk_loop (st\<lparr>data := store_pair (data st) kv,
                        ft_index := map_option (\<lambda>i. index_value i (JStr (fst kv)) (snd kv)) (ft_index st)\<rparr>)
            (tuples kvs)"
    by (simp add: tuples_def store_pair_def)
  then show ?case
    by (simp add: Cons.IH index_pairs_def option.map_comp comp_def)
qed

lemma persist_data: "data (snd (persist st entry dbg ev)) = data st"
  by (simp add: persist_def append_wal_def save_snapshot_def split: wal_outcome.splits snap_outcome.splits prod.splits sum.splits)

lemma tuples_Nil: "tuples kvs = [] \<longleftrightarrow> kvs = []"
  by (simp add: tuples_def)

lemma bulk_set_tuples:
  "bulk_set st (tuples kvs) dbg ev =
     (if kvs = [] then (Inr (), st)
      else persist (st\<lparr>data := foldl store_pair (data st) kvs,
                        ft_index := map_option (\<lambda>i. index_pairs i kvs) (ft_index st)\<rparr>)
             (bulk_entry (tuples kvs)) dbg ev)"
  by (simp add: bulk_set_def bulk_loop_tuples tuples_Nil)

lemma call_data: "data (snd (call st m dbg ev)) = apply_mutation (data st) m"
  by (cases m) (simp_all add: set_kv_def delete_kv_str bulk_set_tuples persist_data)

lemma persist_index: "ft_index (snd (persist st entry dbg ev)) = ft_index st"
  by (simp add: persist_def append_wal_def save_snapshot_def split: wal_outcome.splits snap_outcome.splits prod.splits sum.splits)

lemma index_pairs_Nil: "index_pairs i [] = i"
  by (simp add: index_pairs_def)

lemma call_index:
  "ft_index (snd (call st m dbg ev)) = map_option (\<lambda>i. index_mutation i m) (ft_index st)"
  by (cases m)
    (simp_all add: set_kv_def delete_kv_str bulk_set_tuples persist_index index_pairs_Nil option.map_ident)





section \<open>The response to \<open>get\<close>\<close>

text \<open>
  A key stored with JSON null and a key that is absent get the same line, \<open>{"ok": true}\<close>
  with no \<open>value\<close> field: \<open>KVStore.get\<close> returns \<open>None\<close> for both and \<open>encode_response\<close>
  leaves \<open>value\<close> out when it is \<open>None\<close>.
\<close>

theorem get_null_like_absent:
  "fst (handle_request \<lparr>data = [(''k'', JNull)], ft_index = None, files = fresh_disk\<rparr>
          (Request (get_request ''k'')) all_written)
     = Sent (JObj [(''ok'', JBool True)])
   \<and> fst (handle_request \<lparr>data = [], ft_index = None, files = fresh_disk\<rparr>
          (Request (get_request ''k'')) all_written)
     = Sent (JObj [(''ok'', JBool True)])"
  by (simp add: handle_request_def get_request_def get_kv_def encode_response_def)

text \<open>
  C5, as the code has it. For every key \<open>k\<close> the response to \<open>get\<close> is \<open>{"ok": true}\<close>
  followed by a \<open>value\<close> field exactly when \<open>k\<close> is stored with a value other than null;
  an absent key and a key stored with null both get the line without \<open>value\<close>. The store
  is not changed.
\<close>

theorem get_response_value_field:
  "handle_request st (Request (get_request k)) ev =
     (Sent (JObj ((''ok'', JBool True) #
              (case map_of (data st) k of
                 None \<Rightarrow> []
               | Some v \<Rightarrow> if v = JNull then [] else [(''value'', v)]))), st)"
  by (simp add: handle_request_def get_request_def get_kv_def encode_response_def split: option.splits)

section \<open>Requests to a secondary\<close>

text \<open>
  C10. A cluster node whose \<open>is_primary\<close> is false answers every decoded request that
  asks for anything but \<open>role\<close> (a read such as \<open>get\<close>, \<open>search\<close> or \<open>search_similar\<close> as
  well as a write, and a request that names no method at all) with
  \<open>{"ok": false, "error": "not primary"}\<close>, and nothing of the node, its store included, is
  changed.
\<close>

theorem secondary_rejects_all_but_role:
  assumes "\<not> is_primary n"
    and "obj_get req ''method'' JNull = Inr method"
    and "method \<noteq> JStr ''role''"
  shows "node_handle_request n (Request req) ev nw = (Sent not_primary, n)
       \<and> not_primary = JObj [(''ok'', JBool False), (''error'', JStr ''not primary'')]"
  using assms by (simp add: node_handle_request_def not_primary_def encode_response_def)

text \<open>
  A secondary with \<open>node_id\<close> 1 is sent \<open>get\<close>: it answers \<open>not primary\<close> and stays as it was.
\<close>

theorem secondary_rejects_all_but_role_witness:
  "\<not> is_primary secondary_one
   \<and> obj_get (get_request ''a'') ''method'' JNull = Inr (JStr ''get'')
   \<and> JStr ''get'' \<noteq> JStr ''role''
   \<and> node_handle_request secondary_one (Request (get_request ''a'')) all_written silent_net
       = (Sent (JObj [(''ok'', JBool False), (''error'', JStr ''not primary'')]), secondary_one)"
  using secondary_rejects_all_but_role
    [of secondary_one "get_request ''a''" "JStr ''get''" all_written silent_net]
  by (simp add: secondary_one_def get_request_def)

section \<open>The role flag\<close>

lemma apply_and_replicate_role:
  "is_primary (snd (apply_and_replicate n entry ev nw)) = is_primary n"
  by (simp add: apply_and_replicate_def split: prod.splits sum.splits)

lemma case_reply_role:
  "is_primary (snd (case apply_and_replicate n entry ev nw of
                      (Inl e, n') \<Rightarrow> (SentError e, n')
                    | (Inr u, n') \<Rightarrow> (Sent ok_response, n'))) = is_primary n"
proof (cases "apply_and_replicate n entry ev nw")
  case (Pair r n')
  then show ?thesis
    using apply_and_replicate_role [of n entry ev nw] by (cases r) simp_all
qed

lemma handle_keeps_primary:
  "is_primary (snd (node_handle_request n line ev nw)) = is_primary n"
proof (cases line)
  case BadRequest
  then show ?thesis by (simp add: node_handle_request_def)
next
  case (RequestRaises e)
  then show ?thesis by (simp add: node_handle_request_def)
next
  case (Request req)
  show ?thesis
  proof (cases "obj_get req ''method'' JNull")
    case (Inl e)
    then show ?thesis using Request by (simp add: node_handle_request_def)
  next
    case (Inr meth)
    show ?thesis
      unfolding node_handle_request_def Let_def
      using Request Inr
      by (simp add: case_reply_role split: sum.splits)
  qed
qed

lemma node_step_keeps_primary: "is_primary n \<Longrightarrow> is_primary (node_step n e)"
proof (cases e)
  case (Pair what nw)
  assume "is_primary n"
  then show ?thesis
    using Pair
    by (cases what) (simp_all add: handle_keeps_primary election_round_def receive_entry_def)
qed

lemma cn_step_keeps_primary: "is_primary n \<Longrightarrow> is_primary (cn_step n e)"
proof (cases e)
  case (Pair what nw)
  assume "is_primary n"
  then show ?thesis
    using Pair
    by (cases what)
       (simp_all add: run_election_def receive_entry_def cn_apply_and_replicate_def
          split: prod.splits sum.splits)
qed

text \<open>
  C7. Within one process lifetime \<open>is_primary\<close> never goes from true to false: whatever
  sequence of client requests, election turns and replicated entries a node of
  \<open>cluster_node.py\<close> goes through, and whatever sequence of \<open>apply_and_replicate\<close> calls,
  elections and replicated entries a \<open>ClusterNode\<close> of \<open>replication.py\<close> goes through, a node
  that is primary before the sequence is primary after it. (The only assignments to the flag
  are those of \<open>promote\<close> and \<open>become_primary\<close>, which set it.)
\<close>

theorem is_primary_never_cleared:
  assumes "is_primary n"
  shows "is_primary (foldl node_step n es) \<and> is_primary (foldl cn_step n cs)"
proof
  show "is_primary (foldl node_step n es)"
    using assms by (induction es arbitrary: n) (simp_all add: node_step_keeps_primary)
  show "is_primary (foldl cn_step n cs)"
    using assms by (induction cs arbitrary: n) (simp_all add: cn_step_keeps_primary)
qed


theorem is_primary_never_cleared_witness:
  "is_primary primary_zero
   \<and> is_primary (foldl node_step primary_zero
        [(ElectionTurn, silent_net),
         (ClientRequest (Request (request_of (Set ''a'' (JInt 1)) False)) all_written, silent_net),
         (Replicated (set_entry (JStr ''b'') JNull), silent_net)])
   \<and> is_primary (foldl cn_step primary_zero
        [(CnElection, silent_net), (CnApply (delete_entry (JStr ''a'')), silent_net)])"
  using is_primary_never_cleared
    [of primary_zero
        "[(ElectionTurn, silent_net),
          (ClientRequest (Request (request_of (Set ''a'' (JInt 1)) False)) all_written, silent_net),
          (Replicated (set_entry (JStr ''b'') JNull), silent_net)]"
        "[(CnElection, silent_net), (CnApply (delete_entry (JStr ''a'')), silent_net)]"]
  by (simp add: primary_zero_def)

section \<open>The election\<close>

lemma lower_primary_role: "lower_primary my (Answer (role_response b i)) = (b \<and> i < my)"
  by (simp add: lower_primary_def role_response_def)

lemma gives_way_role: "gives_way my (Answer (role_response b i)) = (b \<or> i < my)"
  by (simp add: gives_way_def role_response_def)

lemma lower_primary_NoAnswer: "lower_primary my NoAnswer = False"
  by (simp add: lower_primary_def)

lemma gives_way_NoAnswer: "gives_way my NoAnswer = False"
  by (simp add: gives_way_def)

lemma role_response_inject: "role_response b i = role_response b' i' \<longleftrightarrow> b = b' \<and> i = i'"
  by (simp add: role_response_def)

lemma probe_ports_iff:
  assumes "role_answers nw ps"
  shows "probe_ports n nw ps =
           (\<exists>p \<in> set ps. p \<noteq> kv_port n \<and>
              (\<exists>i. probe nw p = Answer (role_response True i) \<and> i < node_id n))"
  using assms
proof (induction ps)
  case Nil
  then show ?case by simp
next
  case (Cons p ps)
  from Cons.prems have rest: "role_answers nw ps"
    and here: "probe nw p = NoAnswer \<or> (\<exists>b i. probe nw p = Answer (role_response b i))"
    by (simp_all add: role_answers_def)
  from here show ?case
  proof
    assume "probe nw p = NoAnswer"
    then show ?thesis using Cons.IH [OF rest] by (simp add: lower_primary_def)
  next
    assume "\<exists>b i. probe nw p = Answer (role_response b i)"
    then obtain b i where "probe nw p = Answer (role_response b i)" by blast
    then show ?thesis
      using Cons.IH [OF rest] by (auto simp add: lower_primary_role role_response_inject)
  qed
qed

lemma ask_peers_iff:
  assumes "role_answers nw ps"
  shows "ask_peers n nw ps =
           (\<exists>p \<in> set ps. p \<noteq> kv_port n \<and>
              (\<exists>b i. probe nw p = Answer (role_response b i) \<and> (b \<or> i < node_id n)))"
  using assms
proof (induction ps)
  case Nil
  then show ?case by simp
next
  case (Cons p ps)
  from Cons.prems have rest: "role_answers nw ps"
    and here: "probe nw p = NoAnswer \<or> (\<exists>b i. probe nw p = Answer (role_response b i))"
    by (simp_all add: role_answers_def)
  from here show ?case
  proof
    assume "probe nw p = NoAnswer"
    then show ?thesis using Cons.IH [OF rest] by (simp add: gives_way_def)
  next
    assume "\<exists>b i. probe nw p = Answer (role_response b i)"
    then obtain b i where "probe nw p = Answer (role_response b i)" by blast
    then show ?thesis
      using Cons.IH [OF rest] by (auto simp add: gives_way_role role_response_inject)
  qed
qed

text \<open>
  \<open>ClusterNode._run_election\<close> does not follow the rule of the claim: with a peer that
  answers as primary with the larger \<open>node_id\<close> 2, and no other answer, node 1 stays
  secondary there (\<open>if resp.get("primary"): return\<close>), while \<open>election_loop\<close> of
  \<open>cluster_node.py\<close> promotes it. No peer reported primary with a smaller \<open>node_id\<close>.
\<close>

theorem run_election_gives_way_to_higher_primary:
  "\<not> is_primary secondary_one
   \<and> \<not> lower_primary_seen secondary_one higher_primary_net
   \<and> run_election secondary_one higher_primary_net = secondary_one
   \<and> is_primary (election_round secondary_one higher_primary_net)"
  by (simp add: secondary_one_def higher_primary_net_def lower_primary_seen_def run_election_def
      election_round_def gives_way_role lower_primary_role promote_def role_response_inject
      lower_primary_NoAnswer gives_way_NoAnswer)

text \<open>
  C6, as the code has it. In one election round of a secondary in which every probed port
  gave no usable answer or a \<open>role\<close> response: \<open>election_loop\<close> of \<open>cluster_node.py\<close> leaves
  the node as it is exactly when some other port answered as primary with a \<open>node_id\<close>
  smaller than the node's own, and promotes the node in every other case;
  \<open>ClusterNode._run_election\<close> of \<open>replication.py\<close> leaves the node as it is exactly when
  some other port answered as primary (whatever its \<open>node_id\<close>) or answered with a smaller
  \<open>node_id\<close> (primary or not), and makes the node primary in every other case.
\<close>

theorem election_outcome:
  assumes "\<not> is_primary n" and "role_answers nw (other_kv_ports n)"
  shows "election_round n nw = (if lower_primary_seen n nw then n else promote n nw)
       \<and> is_primary (election_round n nw) = (\<not> lower_primary_seen n nw)
       \<and> run_election n nw = (if primary_or_lower_seen n nw then n else become_primary n nw)
       \<and> is_primary (run_election n nw) = (\<not> primary_or_lower_seen n nw)"
  using assms
  by (simp add: election_round_def run_election_def probe_ports_iff ask_peers_iff
      lower_primary_seen_def primary_or_lower_seen_def promote_def become_primary_def)

theorem election_outcome_witness:
  "\<not> is_primary secondary_one
   \<and> role_answers higher_primary_net (other_kv_ports secondary_one)
   \<and> is_primary (election_round secondary_one higher_primary_net)
   \<and> \<not> is_primary (run_election secondary_one higher_primary_net)"
proof -
  have h1: "\<not> is_primary secondary_one"
    by (simp add: secondary_one_def)
  have h2: "role_answers higher_primary_net (other_kv_ports secondary_one)"
    by (auto simp add: secondary_one_def higher_primary_net_def role_answers_def)
  have s1: "\<not> lower_primary_seen secondary_one higher_primary_net"
    by (simp add: secondary_one_def higher_primary_net_def lower_primary_seen_def
        role_response_inject)
  have s2: "primary_or_lower_seen secondary_one higher_primary_net"
    by (auto simp add: secondary_one_def higher_primary_net_def primary_or_lower_seen_def
        role_response_inject)
  show ?thesis
    using h1 h2 s1 s2 election_outcome [OF h1 h2] by (simp add: promote_def)
qed


section \<open>A tail that is not JSON\<close>



text \<open>
  Bytes that are not UTF-8 are not treated as the end of the log either: the text reader
  raises UnicodeDecodeError, a ValueError that is no JSONDecodeError, and the constructor
  fails.
\<close>

lemma undecodable_bytes_raise:
  "recover \<lparr>wal = [entry_line (Set ''a'' (JInt 1)), Raising UnicodeDecodeError], wal_tail = None,
            snapshot = NoSnapshot\<rparr> False = Inl UnicodeDecodeError"
  by (simp add: recover_def snapshot_raises_def wal_lines_def load_snapshot_def entry_line_def
      replay_entry_def set_entry_def)



section \<open>Bulk records at a crash\<close>

lemma touched_mono: "set xs \<subseteq> set ys \<Longrightarrow> touched xs \<subseteq> touched ys"
  by (auto simp add: touched_def)

lemma replay_absorbs_prefix:
  assumes "j \<le> r"
  shows "foldl effect (foldl effect Map.empty (take j ms)) (take r ms)
           = foldl effect Map.empty (take r ms)"
proof
  fix k
  show "foldl effect (foldl effect Map.empty (take j ms)) (take r ms) k
          = foldl effect Map.empty (take r ms) k"
  proof (cases "k \<in> touched (take r ms)")
    case True
    then show ?thesis by (rule effects_touched)
  next
    case False
    have "set (take j ms) \<subseteq> set (take r ms)"
      using assms by (rule set_take_subset_set_take)
    then have "k \<notin> touched (take j ms)"
      using False touched_mono by blast
    then show ?thesis
      using False by (simp add: effects_untouched)
  qed
qed










section \<open>Snapshot and WAL\<close>

lemma prefix_snapshot_grow:
  "prefix_snapshot ms (length ms) snap \<Longrightarrow> prefix_snapshot (ms @ [m]) (Suc (length ms)) snap"
  by (cases snap) (auto simp add: prefix_snapshot_def intro: le_SucI)

lemma prefix_snapshot_new:
  "map_of s = foldl effect Map.empty (ms @ [m]) \<Longrightarrow>
     prefix_snapshot (ms @ [m]) (Suc (length ms)) (Snapshot s)"
  unfolding prefix_snapshot_def by (auto intro: exI [of _ "Suc (length ms)"])

lemma prefix_snapshot_bad: "prefix_snapshot ms n BadSnapshot"
  by (simp add: prefix_snapshot_def)

lemma persist_consistent:
  assumes "consistent_disk (files st) ms" and "wal_out ev = WalWritten"
    and "map_of (data st) = foldl effect Map.empty (ms @ [m])"
  shows "consistent (snd (persist st (entry_of m) dbg ev)) (ms @ [m])"
  using assms prefix_snapshot_grow [of ms "snapshot (files st)" m] prefix_snapshot_new [of "data st" ms m]
  by (auto simp add: consistent_def consistent_disk_def persist_def append_wal_def
      save_snapshot_def entry_line_def prefix_snapshot_bad split: snap_outcome.splits)

lemma call_consistent:
  assumes "consistent st ms" and "wal_out ev = WalWritten"
  shows "consistent (snd (call st m dbg ev)) (ms @ (if m = Bulk [] then [] else [m]))"
proof (cases m)
  case (Set k v)
  let ?st = "st\<lparr>data := AList.update k v (data st),
                 ft_index := map_option (\<lambda>idx. index_value idx (JStr k) v) (ft_index st)\<rparr>"
  have "consistent (snd (persist ?st (entry_of (Set k v)) dbg ev)) (ms @ [Set k v])"
    using assms by (intro persist_consistent) (simp_all add: consistent_def update_conv')
  then show ?thesis using Set by (simp add: set_kv_def)
next
  case (Delete k)
  let ?st = "st\<lparr>data := AList.delete k (data st),
                 ft_index := map_option (\<lambda>idx. remove_key idx (JStr k)) (ft_index st)\<rparr>"
  have "consistent (snd (persist ?st (entry_of (Delete k)) dbg ev)) (ms @ [Delete k])"
    using assms by (intro persist_consistent) (simp_all add: consistent_def delete_conv')
  then show ?thesis using Delete by (simp add: delete_kv_str)
next
  case (Bulk kvs)
  show ?thesis
  proof (cases "kvs = []")
    case True
    then show ?thesis using Bulk assms(1) by (simp add: bulk_set_tuples)
  next
    case False
    let ?st = "st\<lparr>data := foldl store_pair (data st) kvs,
                   ft_index := map_option (\<lambda>i. index_pairs i kvs) (ft_index st)\<rparr>"
    have "consistent (snd (persist ?st (entry_of (Bulk kvs)) dbg ev)) (ms @ [Bulk kvs])"
      using assms by (intro persist_consistent) (simp_all add: consistent_def map_of_bulk)
    then show ?thesis using Bulk False by (simp add: bulk_set_tuples)
  qed
qed

lemma logged_Cons:
  "logged (c # cs) = (if fst c = Bulk [] then [] else [fst c]) @ logged cs"
  by (simp add: logged_def)

lemma run_consistent:
  assumes "consistent st ms" and "list_all wal_written steps"
  shows "consistent (run st steps) (ms @ logged steps)"
  using assms
proof (induction steps arbitrary: st ms)
  case Nil
  then show ?case by (simp add: run_def logged_def)
next
  case (Cons c cs)
  obtain m dbg ev where c: "c = (m, dbg, ev)" by (cases c) auto
  from Cons.prems(2) c have w: "wal_out ev = WalWritten"
    by (simp add: wal_written_def)
  have "consistent (snd (call st m dbg ev)) (ms @ (if m = Bulk [] then [] else [m]))"
    using Cons.prems(1) w by (rule call_consistent)
  then have next_state: "consistent (run (snd (call st m dbg ev)) cs)
               ((ms @ (if m = Bulk [] then [] else [m])) @ logged cs)"
    using Cons.prems(2) by (intro Cons.IH) simp_all
  have step: "run st (c # cs) = run (snd (call st m dbg ev)) cs"
    using c by (simp add: run_def)
  have lg: "ms @ logged (c # cs) = (ms @ (if m = Bulk [] then [] else [m])) @ logged cs"
    using c by (simp add: logged_Cons)
  show ?case
    unfolding step lg by (rule next_state)
qed

lemma recover_consistent:
  assumes "consistent_disk dk ms"
  shows "\<exists>st. recover dk b = Inr st \<and> consistent st ms"
proof -
  have lines: "wal_lines dk = map entry_line ms @ []"
    using assms by (simp add: consistent_disk_def wal_lines_def)
  have "map_of (foldl apply_mutation (load_snapshot dk) ms) = foldl effect Map.empty ms"
  proof (cases "snapshot dk")
    case (Snapshot s)
    with assms obtain j where "j \<le> length ms" "map_of s = foldl effect Map.empty (take j ms)"
      by (auto simp add: consistent_disk_def prefix_snapshot_def)
    then show ?thesis
      using Snapshot replay_absorbs_prefix [of j "length ms" ms]
      by (simp add: map_of_apply_mutations load_snapshot_def)
  qed (simp_all add: map_of_apply_mutations load_snapshot_def)
  moreover have "snapshot_raises dk = None"
    using assms by (intro prefix_snapshot_loaded [of ms "length ms"]) (simp add: consistent_disk_def)
  ultimately show ?thesis
    using assms by (simp add: recover_loaded consistent_def replay_entry_lines lines del: append_Nil2)
qed

text \<open>
  On an empty directory, \<open>set("a", 1)\<close> whose WAL append raises, then \<open>set("b", 2)\<close>: the
  first call has left \<open>a\<close> in the map, so the snapshot written by the second call holds
  \<open>a\<close>, which no WAL entry writes. Replaying the WAL onto the empty map gives a map without
  \<open>a\<close>, replaying it onto the snapshot gives a map with \<open>a\<close>.
\<close>

theorem snapshot_holds_unlogged_write:
  "files (run empty_store
       [(Set ''a'' (JInt 1), False, wal_refused), (Set ''b'' (JInt 2), False, all_written)])
     = \<lparr>wal = [entry_line (Set ''b'' (JInt 2))], wal_tail = None,
        snapshot = Snapshot [(''a'', JInt 1), (''b'', JInt 2)]\<rparr>
   \<and> replay [] [entry_line (Set ''b'' (JInt 2))] = Inr [(''b'', JInt 2)]
   \<and> replay [(''a'', JInt 1), (''b'', JInt 2)] [entry_line (Set ''b'' (JInt 2))]
       = Inr [(''a'', JInt 1), (''b'', JInt 2)]
   \<and> map_of [(''b'', JInt 2)] ''a'' \<noteq> map_of [(''a'', JInt 1), (''b'', JInt 2)] ''a''"
  by (simp add: run_def empty_store_def all_written_def wal_refused_def fresh_disk_def
      set_kv_def persist_def append_wal_def save_snapshot_def entry_line_def
      replay_entry_def set_entry_def)

text \<open>
  Two more ways in which the map gets ahead of the WAL, with no failed append. A
  \<open>bulk_set\<close> request whose second pair has one element: \<open>bulk_set\<close> stores the first pair
  and raises ValueError at the second, before \<open>_append_wal\<close>; the snapshot of the next call
  holds \<open>a\<close>, which no WAL entry writes.
\<close>

lemma bulk_request_failing_midway_reaches_snapshot:
  "handle_request empty_store
      (Request (JObj [(''method'', JStr ''bulk_set''),
                      (''items'', JArr [JArr [JStr ''a'', JInt 1], JArr [JStr ''b'']])]))
      all_written
     = (SentError ValueError, empty_store\<lparr>data := [(''a'', JInt 1)]\<rparr>)
   \<and> files (snd (handle_request (empty_store\<lparr>data := [(''a'', JInt 1)]\<rparr>)
                   (Request (request_of (Set ''c'' (JInt 2)) False)) all_written))
       = \<lparr>wal = [entry_line (Set ''c'' (JInt 2))], wal_tail = None,
          snapshot = Snapshot [(''a'', JInt 1), (''c'', JInt 2)]\<rparr>
   \<and> replay [] [entry_line (Set ''c'' (JInt 2))] = Inr [(''c'', JInt 2)]
   \<and> replay [(''a'', JInt 1), (''c'', JInt 2)] [entry_line (Set ''c'' (JInt 2))]
       = Inr [(''a'', JInt 1), (''c'', JInt 2)]"
  by (simp add: handle_request_def bulk_set_def empty_store_def all_written_def fresh_disk_def
      set_kv_def persist_def append_wal_def save_snapshot_def entry_line_def
      replay_entry_def set_entry_def)

text \<open>
  A secondary of the cluster stores a replicated entry in its map without a WAL append
  (\<open>ReplicationReceiver.run\<close>); once an election round in which nobody answers has promoted
  it, the snapshot of its first own write holds the replicated key, which its WAL lacks.
\<close>

lemma replicated_entry_reaches_snapshot_after_promotion:
  "receive_entry secondary_one (set_entry (JStr ''a'') (JInt 1))
     = secondary_one\<lparr>store := empty_store\<lparr>data := [(''a'', JInt 1)]\<rparr>\<rparr>
   \<and> election_round (secondary_one\<lparr>store := empty_store\<lparr>data := [(''a'', JInt 1)]\<rparr>\<rparr>) silent_net
     = promote (secondary_one\<lparr>store := empty_store\<lparr>data := [(''a'', JInt 1)]\<rparr>\<rparr>) silent_net
   \<and> files (store (snd (node_handle_request
        (promote (secondary_one\<lparr>store := empty_store\<lparr>data := [(''a'', JInt 1)]\<rparr>\<rparr>) silent_net)
        (Request (request_of (Set ''c'' (JInt 2)) False)) all_written silent_net)))
       = \<lparr>wal = [entry_line (Set ''c'' (JInt 2))], wal_tail = None,
          snapshot = Snapshot [(''a'', JInt 1), (''c'', JInt 2)]\<rparr>"
  by (simp add: receive_entry_def apply_to_map_def set_entry_def secondary_one_def
      election_round_def lower_primary_def silent_net_def promote_def node_handle_request_def
      apply_and_replicate_def empty_store_def all_written_def fresh_disk_def
      persist_def append_wal_def save_snapshot_def entry_line_def)

text \<open>
  C3, as the code has it, for a \<open>KVStore\<close> that only its own \<open>set\<close>, \<open>delete\<close> and
  \<open>bulk_set\<close> change (no replicated entries), called with arguments of the declared types:
  keys that are \<open>str\<close>, \<open>items\<close> a list of pairs of a \<open>str\<close> and a value, so that no call
  raises before its WAL append. Construct the store on a directory whose WAL holds whole
  lines of such entries only (no torn tail) and whose snapshot is missing, is text that is
  not JSON, or is a dumped dict that is the map of a prefix of these entries (an empty
  directory is one). After any sequence of such calls in each of which the WAL append
  wrote its whole line (the snapshot write may be skipped, raise having written nothing, or
  raise leaving a torn file), if the snapshot file holds a dumped dict then replaying the
  whole WAL onto the empty map and replaying it onto the snapshot's map both succeed and
  give the same map, which is also the map in memory.
\<close>

theorem snapshot_absorbed_by_replay:
  assumes "consistent_disk dk ms"
    and "recover dk b = Inr st"
    and "list_all wal_written steps"
    and "snapshot (files (run st steps)) = Snapshot s"
  shows "\<exists>d1 d2. replay [] (wal_lines (files (run st steps))) = Inr d1
               \<and> replay s (wal_lines (files (run st steps))) = Inr d2
               \<and> map_of d1 = map_of d2
               \<and> map_of d1 = map_of (data (run st steps))"
proof -
  let ?ms = "ms @ logged steps"
  let ?st = "run st steps"
  from recover_consistent [OF assms(1), of b] assms(2) have "consistent st ms"
    by auto
  then have c: "consistent ?st ?ms"
    using assms(3) by (rule run_consistent)
  then have lines: "wal_lines (files ?st) = map entry_line ?ms @ []"
    by (simp add: consistent_def consistent_disk_def wal_lines_def)
  from c assms(4) obtain j where j: "j \<le> length ?ms" "map_of s = foldl effect Map.empty (take j ?ms)"
    by (auto simp add: consistent_def consistent_disk_def prefix_snapshot_def)
  have r1: "replay [] (wal_lines (files ?st)) = Inr (foldl apply_mutation [] ?ms)"
    unfolding lines by (simp only: replay_entry_lines replay.simps)
  have r2: "replay s (wal_lines (files ?st)) = Inr (foldl apply_mutation s ?ms)"
    unfolding lines by (simp only: replay_entry_lines replay.simps)
  have e: "map_of (foldl apply_mutation [] ?ms) = map_of (foldl apply_mutation s ?ms)"
    using j replay_absorbs_prefix [of j "length ?ms" ?ms]
    by (simp add: map_of_apply_mutations)
  have m: "map_of (foldl apply_mutation [] ?ms) = map_of (data ?st)"
    using c by (simp add: consistent_def map_of_apply_mutations)
  show ?thesis
    using r1 r2 e m by blast
qed


theorem snapshot_absorbed_by_replay_witness:
  "consistent_disk fresh_disk []
   \<and> recover fresh_disk False = Inr empty_store
   \<and> list_all wal_written
        [(Set ''a'' (JInt 1), False, all_written), (Set ''a'' (JInt 2), True, snapshot_skipped)]
   \<and> snapshot (files (run empty_store
        [(Set ''a'' (JInt 1), False, all_written), (Set ''a'' (JInt 2), True, snapshot_skipped)]))
       = Snapshot [(''a'', JInt 1)]
   \<and> (\<exists>d1 d2.
         replay [] (wal_lines (files (run empty_store
           [(Set ''a'' (JInt 1), False, all_written), (Set ''a'' (JInt 2), True, snapshot_skipped)])))
           = Inr d1
       \<and> replay [(''a'', JInt 1)] (wal_lines (files (run empty_store
           [(Set ''a'' (JInt 1), False, all_written), (Set ''a'' (JInt 2), True, snapshot_skipped)])))
           = Inr d2
       \<and> map_of d1 = map_of d2)"
proof -
  let ?steps = "[(Set ''a'' (JInt 1), False, all_written), (Set ''a'' (JInt 2), True, snapshot_skipped)]"
  have h1: "consistent_disk fresh_disk []"
    by (simp add: consistent_disk_def fresh_disk_def prefix_snapshot_def)
  have h2: "recover fresh_disk False = Inr empty_store"
    by (simp add: recover_def snapshot_raises_def fresh_disk_def empty_store_def wal_lines_def load_snapshot_def)
  have h3: "list_all wal_written ?steps"
    by (simp add: wal_written_def all_written_def snapshot_skipped_def)
  have h4: "snapshot (files (run empty_store ?steps)) = Snapshot [(''a'', JInt 1)]"
    by (simp add: run_def empty_store_def all_written_def snapshot_skipped_def fresh_disk_def
        set_kv_def persist_def append_wal_def save_snapshot_def)
  show ?thesis
    using h1 h2 h3 h4 snapshot_absorbed_by_replay [OF h1 h2 h3 h4] by blast
qed


section \<open>Durability of acknowledged writes\<close>

lemma persist_files:
  "files (snd (persist st entry dbg ev)) = disk_after (files st) (data st) entry dbg ev"
  by (simp add: persist_def disk_after_def split: prod.splits sum.splits)

lemma call_files:
  "files (snd (call st m dbg ev)) =
     (if m = Bulk [] then files st
      else disk_after (files st) (apply_mutation (data st) m) (entry_of m) dbg ev)"
  by (cases m) (simp_all add: set_kv_def delete_kv_str bulk_set_tuples persist_files)

lemma save_snapshot_wal:
  "wal (snd (save_snapshot d dk dbg ev)) = wal dk
   \<and> wal_tail (snd (save_snapshot d dk dbg ev)) = wal_tail dk"
  by (simp add: save_snapshot_def split: snap_outcome.splits)

lemma disk_after_wal:
  "wal (disk_after dk d entry dbg ev) =
     (if wal_out ev = WalWritten then wal dk @ [glue (wal_tail dk) (Decoded entry)] else wal dk)"
  by (simp add: disk_after_def append_wal_def save_snapshot_wal split: wal_outcome.splits)

lemma disk_after_tail:
  "wal_tail (disk_after dk d entry dbg ev) =
     (case wal_out ev of
        WalWritten \<Rightarrow> None
      | WalNothing \<Rightarrow> wal_tail dk
      | WalTorn \<Rightarrow> Some (glue (wal_tail dk) Undecodable)
      | WalNoNewline \<Rightarrow> Some (glue (wal_tail dk) (Decoded entry)))"
  by (simp add: disk_after_def append_wal_def save_snapshot_wal split: wal_outcome.splits)

lemma whole_lines_step:
  assumes "whole_lines (files st) ms" and "clean_write (m, dbg, ev)"
  shows "\<exists>ms'. whole_lines (files (snd (call st m dbg ev))) ms'"
proof (cases "m = Bulk []")
  case True
  then have "files (snd (call st m dbg ev)) = files st"
    by (subst call_files) simp
  then show ?thesis using assms(1) by auto
next
  case False
  then have f: "files (snd (call st m dbg ev))
                  = disk_after (files st) (apply_mutation (data st) m) (entry_of m) dbg ev"
    by (subst call_files) simp
  from assms(2) have "wal_out ev = WalWritten \<or> wal_out ev = WalNothing"
    by (simp add: clean_write_def)
  then show ?thesis
  proof
    assume "wal_out ev = WalNothing"
    then have "whole_lines (files (snd (call st m dbg ev))) ms"
      using assms(1) unfolding f by (simp add: whole_lines_def disk_after_wal disk_after_tail)
    then show ?thesis ..
  next
    assume "wal_out ev = WalWritten"
    then have "whole_lines (files (snd (call st m dbg ev))) (ms @ [m])"
      using assms(1) unfolding f
      by (simp add: whole_lines_def disk_after_wal disk_after_tail entry_line_def)
    then show ?thesis ..
  qed
qed

lemma whole_lines_run:
  assumes "whole_lines (files st) ms" and "list_all clean_write steps"
  shows "\<exists>ms'. whole_lines (files (run st steps)) ms'"
  using assms
proof (induction steps arbitrary: st ms)
  case Nil
  then show ?case by (auto simp add: run_def)
next
  case (Cons c cs)
  obtain m dbg ev where c: "c = (m, dbg, ev)" by (cases c) auto
  from Cons.prems c obtain ms' where "whole_lines (files (snd (call st m dbg ev))) ms'"
    using whole_lines_step [of st ms m dbg ev] by auto
  then have "\<exists>ms''. whole_lines (files (run (snd (call st m dbg ev)) cs)) ms''"
    using Cons.prems(2) by (intro Cons.IH) simp_all
  then show ?case using c by (simp add: run_def)
qed


lemma written_effect: "written m k = Some v \<Longrightarrow> effect g m k = Some v"
proof (cases m)
  case (Bulk kvs)
  assume w: "written m k = Some v"
  with Bulk have "(k, v) \<in> set (rev kvs)"
    by (auto dest: map_of_SomeD)
  then have "k \<in> fst ` set kvs" by force
  then show ?thesis using Bulk w by (simp add: bulk_touched)
qed (auto split: if_splits)

lemma acknowledged_is_logged:
  assumes "fst (call st m dbg ev) = Inr ()" and "m \<noteq> Bulk []"
  shows "wal_out ev = WalWritten"
  using assms
  by (cases m; cases "wal_out ev")
     (simp_all add: set_kv_def delete_kv_str bulk_set_tuples persist_def append_wal_def)

lemma acknowledged_kept:
  assumes "whole_lines (files st) ms" and "fst (call st m dbg ev) = Inr ()"
    and "written m k = Some v"
  shows "kept k v (files (snd (call st m dbg ev)))"
proof -
  from assms(3) have ne: "m \<noteq> Bulk []" by auto
  then have w: "wal_out ev = WalWritten"
    using assms(2) acknowledged_is_logged by blast
  have f: "files (snd (call st m dbg ev))
             = disk_after (files st) (apply_mutation (data st) m) (entry_of m) dbg ev"
    using ne by (subst call_files) simp
  have lines: "wal (files (snd (call st m dbg ev))) = map entry_line (ms @ [m]) @ []"
    using assms(1) w unfolding f by (simp add: whole_lines_def disk_after_wal entry_line_def)
  have tail: "wal_tail (files (snd (call st m dbg ev))) = None"
    using w unfolding f by (simp add: disk_after_tail)
  have val: "\<forall>f. foldl effect f (ms @ [m]) k = Some v"
    using assms(3) by (simp add: written_effect)
  show ?thesis
    unfolding kept_def using lines tail val
    by (intro exI [of _ "ms @ [m]"] exI [of _ "[]"]) simp
qed

lemma glue_harmless:
  assumes "case tail of None \<Rightarrow> True | Some t \<Rightarrow> harmless k t" and "harmless k l"
  shows "harmless k (glue tail l)"
proof (cases tail)
  case None
  then show ?thesis using assms(2) by simp
next
  case (Some t)
  with assms(1) have "t = Undecodable \<or> (\<exists>entry. t = Decoded entry)"
    by (auto simp add: harmless_def entry_line_def)
  then show ?thesis using Some by (auto simp add: harmless_def)
qed

lemma kept_step:
  assumes "kept k v (files st)" and "k \<notin> touches m"
  shows "kept k v (files (snd (call st m dbg ev)))"
proof (cases "m = Bulk []")
  case True
  then have "files (snd (call st m dbg ev)) = files st"
    by (subst call_files) simp
  then show ?thesis using assms(1) by simp
next
  case False
  let ?dk = "files (snd (call st m dbg ev))"
  have f: "?dk = disk_after (files st) (apply_mutation (data st) m) (entry_of m) dbg ev"
    using False by (subst call_files) simp
  from assms(1) obtain ms ls where
    w: "wal (files st) = map entry_line ms @ ls"
    and val: "\<forall>f. foldl effect f ms k = Some v"
    and ls: "list_all (harmless k) ls"
    and t: "case wal_tail (files st) of None \<Rightarrow> True | Some t \<Rightarrow> harmless k t"
    unfolding kept_def by blast
  have line: "harmless k (Decoded (entry_of m))"
    using assms(2) by (auto simp add: harmless_def entry_line_def)
  have und: "harmless k Undecodable"
    by (simp add: harmless_def)
  have g1: "harmless k (glue (wal_tail (files st)) (Decoded (entry_of m)))"
    using t line by (rule glue_harmless)
  have g2: "harmless k (glue (wal_tail (files st)) Undecodable)"
    using t und by (rule glue_harmless)
  have w': "\<exists>ls'. wal ?dk = map entry_line ms @ ls' \<and> list_all (harmless k) ls'"
  proof (cases "wal_out ev = WalWritten")
    case True
    then have "wal ?dk = map entry_line ms @ (ls @ [glue (wal_tail (files st)) (Decoded (entry_of m))])"
      unfolding f using w by (simp add: disk_after_wal)
    then show ?thesis using ls g1 by (intro exI [of _ "ls @ [glue (wal_tail (files st)) (Decoded (entry_of m))]"]) simp
  next
    case False
    then have "wal ?dk = map entry_line ms @ ls"
      unfolding f using w by (simp add: disk_after_wal)
    then show ?thesis using ls by blast
  qed
  have t': "case wal_tail ?dk of None \<Rightarrow> True | Some t \<Rightarrow> harmless k t"
    unfolding f using t g1 g2 by (cases "wal_out ev") (simp_all add: disk_after_tail)
  show ?thesis
    unfolding kept_def using w' val t' by blast
qed

lemma kept_run:
  assumes "kept k v (files st)" and "list_all (avoids k) steps"
  shows "kept k v (files (run st steps))"
  using assms
proof (induction steps arbitrary: st)
  case Nil
  then show ?case by (simp add: run_def)
next
  case (Cons c cs)
  obtain m dbg ev where c: "c = (m, dbg, ev)" by (cases c) auto
  from Cons.prems c have "kept k v (files (snd (call st m dbg ev)))"
    by (intro kept_step) (simp_all add: avoids_def)
  then have "kept k v (files (run (snd (call st m dbg ev)) cs))"
    using Cons.prems(2) by (intro Cons.IH) simp_all
  then show ?case using c by (simp add: run_def)
qed

lemma replay_harmless:
  assumes "list_all (harmless k) ls" and "map_of d k = Some v"
  shows "\<exists>d'. replay d ls = Inr d' \<and> map_of d' k = Some v"
  using assms
proof (induction ls arbitrary: d)
  case Nil
  then show ?case by simp
next
  case (Cons l ls)
  from Cons.prems(1) have "l = Undecodable \<or> (\<exists>m. l = entry_line m \<and> k \<notin> touches m)"
    by (simp add: harmless_def)
  then show ?case
  proof
    assume "l = Undecodable"
    then show ?thesis using Cons.prems(2) by simp
  next
    assume "\<exists>m. l = entry_line m \<and> k \<notin> touches m"
    then obtain m where m: "l = entry_line m" "k \<notin> touches m" by blast
    have "map_of (apply_mutation d m) k = Some v"
      using m(2) Cons.prems(2) by (simp add: map_of_apply_mutation effect_untouched)
    then have "\<exists>d'. replay (apply_mutation d m) ls = Inr d' \<and> map_of d' k = Some v"
      using Cons.prems(1) by (intro Cons.IH) simp_all
    then show ?thesis using m(1) by (simp add: entry_line_def replay_entry_of)
  qed
qed

lemma kept_recover:
  assumes "kept k v dk" and "snapshot_raises dk = None"
  shows "\<exists>st. recover dk b = Inr st \<and> get_kv st (JStr k) = Inr v"
proof -
  from assms obtain ms ls where
    w: "wal dk = map entry_line ms @ ls"
    and val: "\<forall>f. foldl effect f ms k = Some v"
    and ls: "list_all (harmless k) ls"
    and t: "case wal_tail dk of None \<Rightarrow> True | Some t \<Rightarrow> harmless k t"
    unfolding kept_def by blast
  let ?rest = "ls @ (case wal_tail dk of None \<Rightarrow> [] | Some l \<Rightarrow> [l])"
  let ?d = "foldl apply_mutation (load_snapshot dk) ms"
  have lines: "wal_lines dk = map entry_line ms @ ?rest"
    using w by (simp add: wal_lines_def)
  have rest: "list_all (harmless k) ?rest"
    using ls t by (cases "wal_tail dk") simp_all
  have "map_of ?d k = Some v"
    using val by (simp add: map_of_apply_mutations)
  with rest obtain d' where d': "replay ?d ?rest = Inr d'" "map_of d' k = Some v"
    using replay_harmless by blast
  have "replay (load_snapshot dk) (wal_lines dk) = Inr d'"
    unfolding lines using d'(1) by (simp only: replay_entry_lines)
  then show ?thesis
    using d'(2) assms(2) by (simp add: recover_loaded get_kv_def)
qed

text \<open>
  Durability while no line is torn. A store runs on a directory whose WAL holds whole entry
  lines only and whose snapshot is missing, not JSON or a dumped dict; every WAL append before the call in question wrote its whole line or nothing;
  the call (a \<open>set\<close>, or a \<open>bulk_set\<close> whose last pair for \<open>k\<close> has the value \<open>v\<close>) returns
  normally; the calls after it do not write \<open>k\<close>, and may fail or be cut in any way, as may
  every snapshot write. Then recovery succeeds and \<open>get(k)\<close> returns \<open>v\<close>.
\<close>

lemma save_snapshot_loaded:
  "snapshot_raises dk = None \<Longrightarrow> snapshot_raises (snd (save_snapshot d dk dbg ev)) = None"
  by (simp add: save_snapshot_def snapshot_raises_def split: snap_outcome.splits)

lemma disk_after_loaded:
  "snapshot_raises dk = None \<Longrightarrow> snapshot_raises (disk_after dk d entry dbg ev) = None"
  using save_snapshot_loaded [of _ d dbg ev]
  by (cases "wal_out ev") (simp_all add: disk_after_def append_wal_def snapshot_raises_def)

lemma call_loaded:
  "snapshot_raises (files st) = None \<Longrightarrow> snapshot_raises (files (snd (call st m dbg ev))) = None"
  by (subst call_files) (simp add: disk_after_loaded)

lemma run_loaded:
  "snapshot_raises (files st) = None \<Longrightarrow> snapshot_raises (files (run st steps)) = None"
proof (induction steps arbitrary: st)
  case Nil
  then show ?case by (simp add: run_def)
next
  case (Cons c cs)
  have "snapshot_raises (files (snd (call st (fst c) (fst (snd c)) (snd (snd c))))) = None"
    using Cons.prems by (rule call_loaded)
  then have "snapshot_raises (files (run (snd (call st (fst c) (fst (snd c)) (snd (snd c)))) cs)) = None"
    by (rule Cons.IH)
  then show ?case by (simp add: run_def)
qed

lemma acknowledged_write_survives:
  assumes "whole_lines (files st) ms"
    and "snapshot_raises (files st) = None"
    and "list_all clean_write before"
    and "fst (call (run st before) m dbg ev) = Inr ()"
    and "written m k = Some v"
    and "list_all (avoids k) after"
  shows "\<exists>st'. recover (files (run st (before @ (m, dbg, ev) # after))) b = Inr st'
              \<and> get_kv st' (JStr k) = Inr v"
proof -
  from whole_lines_run [OF assms(1,3)] obtain ms'
    where "whole_lines (files (run st before)) ms'" by blast
  then have "kept k v (files (snd (call (run st before) m dbg ev)))"
    using assms(4,5) by (rule acknowledged_kept)
  then have "kept k v (files (run (snd (call (run st before) m dbg ev)) after))"
    using assms(6) by (rule kept_run)
  moreover have "run st (before @ (m, dbg, ev) # after)
                   = run (snd (call (run st before) m dbg ev)) after"
    by (simp add: run_def)
  moreover have "snapshot_raises (files (run st (before @ (m, dbg, ev) # after))) = None"
    using assms(2) by (rule run_loaded)
  ultimately show ?thesis
    using kept_recover by simp
qed


text \<open>
  C1 fails after a torn line. A first process on an empty directory is killed inside the
  WAL line of \<open>set("a", 1)\<close>. A second process recovers (the torn line ends its replay),
  and \<open>set("k", "v", debug_simulate_fail=True)\<close> returns normally with the snapshot write
  skipped: its line was appended behind the torn text, with which it forms one line that
  is not JSON. A third process recovers: the replay ends at that line, and \<open>get("k")\<close>
  returns \<open>None\<close> although the write was acknowledged and \<open>k\<close> was never written again.
\<close>

theorem acknowledged_set_lost_after_torn_tail:
  "files (run empty_store [(Set ''a'' (JInt 1), False, torn_write)]) = torn_disk
   \<and> recover torn_disk False = Inr \<lparr>data = [], ft_index = None, files = torn_disk\<rparr>
   \<and> call \<lparr>data = [], ft_index = None, files = torn_disk\<rparr> (Set ''k'' (JStr ''v'')) True
        snapshot_skipped
       = (Inr (), \<lparr>data = [(''k'', JStr ''v'')], ft_index = None,
                  files = \<lparr>wal = [Undecodable], wal_tail = None, snapshot = NoSnapshot\<rparr>\<rparr>)
   \<and> recover \<lparr>wal = [Undecodable], wal_tail = None, snapshot = NoSnapshot\<rparr> False
       = Inr \<lparr>data = [], ft_index = None,
              files = \<lparr>wal = [Undecodable], wal_tail = None, snapshot = NoSnapshot\<rparr>\<rparr>
   \<and> get_kv \<lparr>data = [], ft_index = None,
              files = \<lparr>wal = [Undecodable], wal_tail = None, snapshot = NoSnapshot\<rparr>\<rparr>
        (JStr ''k'') = Inr JNull"
  by (simp add: run_def empty_store_def torn_write_def snapshot_skipped_def fresh_disk_def
      torn_disk_def set_kv_def persist_def append_wal_def save_snapshot_def recover_def snapshot_raises_def
      wal_lines_def load_snapshot_def get_kv_def)



section \<open>The index follows the map\<close>

lemma posting_discard: "posting (discard_key idx key) w = posting idx w - {key}"
  by (simp add: posting_def discard_key_def split: option.splits)

lemma posting_add:
  "posting (add_posting key idx w') w = (if w = w' then insert key (posting idx w) else posting idx w)"
  by (simp add: posting_def add_posting_def)

lemma posting_adds:
  "posting (foldl (add_posting key) idx ws) w
     = (if w \<in> set ws then insert key (posting idx w) else posting idx w)"
  by (induction ws arbitrary: idx) (auto simp add: posting_add)

lemma posting_index_value:
  "posting (index_value idx key v) w
     = (if w \<in> tokens_of v then insert key (posting idx w - {key}) else posting idx w - {key})"
  by (simp add: index_value_def posting_adds posting_discard tokens_of_def)

lemma posting_remove_key: "posting (remove_key idx key) w = posting idx w - {key}"
  by (auto simp add: remove_key_def posting_def discard_key_def split: option.splits)

lemma index_matches_update:
  assumes "index_matches idx d"
  shows "index_matches (index_value idx (JStr k) v) (AList.update k v d)"
  unfolding index_matches_def
proof (intro allI)
  fix w key
  show "key \<in> posting (index_value idx (JStr k) v) w \<longleftrightarrow>
          (\<exists>k' v'. key = JStr k' \<and> map_of (AList.update k v d) k' = Some v' \<and> w \<in> tokens_of v')"
    using assms [unfolded index_matches_def, rule_format, of key w]
    by (auto simp add: posting_index_value update_conv')
qed

lemma index_matches_delete:
  assumes "index_matches idx d"
  shows "index_matches (remove_key idx (JStr k)) (AList.delete k d)"
  unfolding index_matches_def
proof (intro allI)
  fix w key
  show "key \<in> posting (remove_key idx (JStr k)) w \<longleftrightarrow>
          (\<exists>k' v'. key = JStr k' \<and> map_of (AList.delete k d) k' = Some v' \<and> w \<in> tokens_of v')"
    using assms [unfolded index_matches_def, rule_format, of key w]
    by (auto simp add: posting_remove_key delete_conv')
qed

lemma index_matches_pairs:
  "index_matches idx d \<Longrightarrow> index_matches (index_pairs idx kvs) (foldl store_pair d kvs)"
proof (induction kvs arbitrary: idx d)
  case Nil
  then show ?case by (simp add: index_pairs_def)
next
  case (Cons kv kvs)
  have "index_matches (index_value idx (JStr (fst kv)) (snd kv)) (store_pair d kv)"
    unfolding store_pair_def using Cons.prems by (rule index_matches_update)
  then have "index_matches (index_pairs (index_value idx (JStr (fst kv)) (snd kv)) kvs)
               (foldl store_pair (store_pair d kv) kvs)"
    by (rule Cons.IH)
  then show ?case by (simp add: index_pairs_def)
qed

lemma index_matches_mutation:
  "index_matches idx d \<Longrightarrow> index_matches (index_mutation idx m) (apply_mutation d m)"
  by (cases m) (simp_all add: index_matches_update index_matches_delete index_matches_pairs)



lemma index_matches_cong: "map_of d = map_of d' \<Longrightarrow> index_matches idx d = index_matches idx d'"
  by (simp add: index_matches_def)

lemma foldl_inter: "foldl (\<lambda>result s. result \<inter> s) A Bs = A \<inter> \<Inter> (set Bs)"
  by (induction Bs arbitrary: A) auto

lemma search_matches:
  assumes "index_matches idx d"
  shows "search idx query = (if tokenize query = [] then {} else matching_keys d query)"
proof (cases "tokenize query")
  case Nil
  then show ?thesis by (simp add: search_def)
next
  case (Cons w ws)
  have "search idx query = posting idx w \<inter> \<Inter> (set (map (posting idx) ws))"
    using Cons by (simp add: search_def foldl_inter)
  also have "\<dots> = {key. \<forall>w' \<in> set (w # ws). key \<in> posting idx w'}"
    by auto
  also have "\<dots> = matching_keys d query"
    unfolding matching_keys_def Cons
    using assms [unfolded index_matches_def]
    by (auto simp add: subset_iff) 
  finally show ?thesis using Cons by simp
qed


lemma map_of_rev_distinct:
  assumes "distinct (map fst xs)"
  shows "map_of (rev xs) = map_of xs"
proof
  fix k
  have d: "distinct (map fst (rev xs))"
    using assms by (simp add: rev_map [symmetric])
  have "\<And>v. (map_of (rev xs) k = Some v) = (map_of xs k = Some v)"
    using assms d by (simp add: map_of_eq_Some_iff)
  then show "map_of (rev xs) k = map_of xs k"
    by (cases "map_of xs k") (auto simp add: option.exhaust)
qed

lemma rebuild_index_matches:
  assumes "distinct (map fst d)"
  shows "index_matches (rebuild_index d) d"
proof -
  have e: "index_matches Map.empty []"
    by (simp add: index_matches_def posting_def)
  have "index_matches (index_pairs Map.empty d) (foldl store_pair [] d)"
    using e by (rule index_matches_pairs)
  moreover have "map_of (foldl store_pair [] d) = map_of d"
    using assms by (simp add: map_of_bulk bulk_as_map_add map_of_rev_distinct)
  ultimately show ?thesis
    using index_matches_cong [of "foldl store_pair [] d" d "index_pairs Map.empty d"]
    by (simp add: rebuild_index_def index_pairs_def)
qed

lemma dict_setitem_distinct:
  "dict_setitem d k v = Inr d' \<Longrightarrow> distinct (map fst d) \<Longrightarrow> distinct (map fst d')"
  by (cases k) (auto simp add: distinct_update)

lemma dict_pop_distinct:
  "dict_pop d k = Inr d' \<Longrightarrow> distinct (map fst d) \<Longrightarrow> distinct (map fst d')"
  by (cases k) (auto simp add: distinct_delete split: if_splits)

lemma replay_items_distinct:
  "replay_items d items = Inr d' \<Longrightarrow> distinct (map fst d) \<Longrightarrow> distinct (map fst d')"
proof (induction items arbitrary: d)
  case Nil
  then show ?case by simp
next
  case (Cons item items)
  from Cons.prems(1) obtain t k v d1 where
    "py_iter item = Inr t" "unpack_pair t = Inr (k, v)" "dict_setitem d k v = Inr d1"
    "replay_items d1 items = Inr d'"
    by (auto split: sum.splits prod.splits)
  then show ?case
    using Cons.IH [of d1] Cons.prems(2) dict_setitem_distinct by blast
qed

lemma replay_entry_distinct:
  "replay_entry d entry = Inr d' \<Longrightarrow> distinct (map fst d) \<Longrightarrow> distinct (map fst d')"
  unfolding replay_entry_def
  by (auto split: sum.splits if_splits
      dest: dict_setitem_distinct dict_pop_distinct replay_items_distinct)

lemma replay_distinct:
  "replay d ls = Inr d' \<Longrightarrow> distinct (map fst d) \<Longrightarrow> distinct (map fst d')"
proof (induction d ls rule: replay.induct)
  case (5 d entry ls)
  from "5.prems"(1) obtain d1 where d1: "replay_entry d entry = Inr d1" "replay d1 ls = Inr d'"
    by (auto split: sum.splits)
  then have "distinct (map fst d1)"
    using "5.prems"(2) replay_entry_distinct by blast
  then show ?case using "5.IH" d1 by simp
qed simp_all

lemma recover_indexed:
  assumes "snapshot_wellformed dk" and "recover dk True = Inr st"
  shows "\<exists>idx. ft_index st = Some idx \<and> index_matches idx (data st)"
proof -
  from assms(2) have "snapshot_raises dk = None"
    by (rule recovered_loaded)
  with assms(2) obtain d where d: "replay (load_snapshot dk) (wal_lines dk) = Inr d"
    and st: "st = \<lparr>data = d, ft_index = Some (rebuild_index d), files = dk\<rparr>"
    by (auto simp add: recover_loaded split: sum.splits)
  from d assms(1) have "distinct (map fst d)"
    unfolding snapshot_wellformed_def by (rule replay_distinct)
  then show ?thesis
    using st by (simp add: rebuild_index_matches)
qed

lemma call_indexed:
  assumes "ft_index st = Some idx" and "index_matches idx (data st)"
  shows "\<exists>idx'. ft_index (snd (call st m dbg ev)) = Some idx'
             \<and> index_matches idx' (data (snd (call st m dbg ev)))"
  using assms by (simp add: call_index call_data index_matches_mutation)

lemma run_indexed:
  assumes "ft_index st = Some idx" and "index_matches idx (data st)"
  shows "\<exists>idx'. ft_index (run st steps) = Some idx' \<and> index_matches idx' (data (run st steps))"
  using assms
proof (induction steps arbitrary: st idx)
  case Nil
  then show ?case by (simp add: run_def)
next
  case (Cons c cs)
  obtain m dbg ev where c: "c = (m, dbg, ev)" by (cases c) auto
  from call_indexed [OF Cons.prems, of m dbg ev] obtain idx1 where
    "ft_index (snd (call st m dbg ev)) = Some idx1"
    "index_matches idx1 (data (snd (call st m dbg ev)))"
    by blast
  then have "\<exists>idx'. ft_index (run (snd (call st m dbg ev)) cs) = Some idx'
                  \<and> index_matches idx' (data (run (snd (call st m dbg ev)) cs))"
    by (rule Cons.IH)
  then show ?case using c by (simp add: run_def)
qed

section \<open>The map is changed before the log is written\<close>







section \<open>Full-text search\<close>

text \<open>
  A query without a token, such as the empty string: every stored value has every token
  of it, so the claim names every key of the map, but \<open>search\<close> returns the empty list
  (\<open>if not words: return []\<close>).
\<close>

theorem empty_query_finds_nothing:
  "recover fresh_disk True = Inr indexed_store
   \<and> data (run indexed_store [(Set ''a'' (JStr ''hello''), False, all_written)])
       = [(''a'', JStr ''hello'')]
   \<and> JStr ''a'' \<in> matching_keys [(''a'', JStr ''hello'')] (JStr [])
   \<and> search_fulltext (run indexed_store [(Set ''a'' (JStr ''hello''), False, all_written)]) (JStr [])
       = {}"
  by (simp add: recover_def snapshot_raises_def fresh_disk_def wal_lines_def load_snapshot_def rebuild_index_def
      indexed_store_def run_def set_kv_def persist_def append_wal_def save_snapshot_def
      all_written_def matching_keys_def tokenize_def search_fulltext_def search_def)


text \<open>
  C8, as the code has it. With indexes enabled, on a store constructed on any directory
  whose snapshot is a dict and after any sequence of \<open>set\<close>, \<open>delete\<close> and \<open>bulk_set\<close>
  calls (whether their file writes succeed or raise), \<open>search_fulltext(query)\<close> returns,
  for a query with at least one token, exactly the keys of the map whose stored value
  has every token of the query among its tokens, the stored value being the newest one;
  for a query with no token it returns the empty list.
\<close>

theorem search_returns_matching_keys:
  assumes "snapshot_wellformed dk" and "recover dk True = Inr st"
  shows "search_fulltext (run st steps) query =
           (if tokenize query = [] then {} else matching_keys (data (run st steps)) query)"
proof -
  from recover_indexed [OF assms] obtain idx where
    "ft_index st = Some idx" "index_matches idx (data st)"
    by blast
  then obtain idx' where
    i: "ft_index (run st steps) = Some idx'" "index_matches idx' (data (run st steps))"
    using run_indexed by blast
  show ?thesis
    using i by (simp add: search_fulltext_def search_matches)
qed

theorem search_returns_matching_keys_witness:
  "snapshot_wellformed fresh_disk
   \<and> recover fresh_disk True = Inr indexed_store
   \<and> tokenize (JStr ''World'') = [''world'']
   \<and> search_fulltext
        (run indexed_store
           [(Set ''a'' (JStr ''Hello world''), False, all_written),
            (Set ''a'' (JStr ''bye''), False, wal_refused)])
        (JStr ''World'')
       = matching_keys
           (data (run indexed_store
              [(Set ''a'' (JStr ''Hello world''), False, all_written),
               (Set ''a'' (JStr ''bye''), False, wal_refused)]))
           (JStr ''World'')"
proof -
  have h1: "snapshot_wellformed fresh_disk"
    by (simp add: snapshot_wellformed_def load_snapshot_def fresh_disk_def)
  have h2: "recover fresh_disk True = Inr indexed_store"
    by (simp add: recover_def snapshot_raises_def fresh_disk_def wal_lines_def load_snapshot_def rebuild_index_def
        indexed_store_def)
  have t: "tokenize (JStr ''World'') = [''world'']"
    by code_simp
  show ?thesis
    using h1 h2 t
      search_returns_matching_keys [OF h1 h2,
        of "[(Set ''a'' (JStr ''Hello world''), False, all_written),
             (Set ''a'' (JStr ''bye''), False, wal_refused)]" "JStr ''World''"]
    by simp
qed


end
